theory Spec2Isabelle
  imports Complex_Main
begin

section \<open>The runner scene of src/main.ts\<close>

text \<open>
  The scene class \<^verbatim>\<open>RunnerScene\<close> is embedded as a record of the fields it owns and one
  function per method. The score is a \<open>nat\<close> (it only counts up from 0); times,
  coordinates, velocities and prices are \<open>real\<close>. JavaScript numbers are doubles: where
  \<^verbatim>\<open>update\<close> adds the elapsed time to an accumulator, the model rounds the sum to the nearest
  double (\<open>toDouble\<close>). The other operations are exact on the values they meet (the score,
  the speed and the spawn delay are small integers). The values \<open>Infinity\<close> and \<open>NaN\<close> are
  outside the model, except that a \<open>NaN\<close> result of \<^verbatim>\<open>parseFloat\<close> is the value \<open>None\<close>.

  The engine (Phaser) is an external collaborator. What it does between two calls of the
  scene's methods is an event of the model that carries the values the engine produced.
\<close>

subsection \<open>Doubles\<close>

text \<open>
  Rounding of a real number to the nearest double, ties to the even significand. A double
  is a multiple of its quantum \<open>2 ^ k / 2 ^ 1074\<close>, with a significand below \<open>2 ^ 53\<close>;
  \<open>k = 0\<close> for the subnormal numbers and the first binade of the normal ones.
  \<open>bitLength n\<close> is the number of binary digits of \<open>n\<close>, \<open>quantumExp x\<close> the exponent \<open>k\<close> of
  the quantum at the magnitude of \<open>x\<close>, and \<open>roundEven\<close> rounds to the nearest integer, a
  tie to the even one. Overflow to \<open>Infinity\<close> (from \<open>2 ^ 1024\<close> on) is not modelled.
\<close>

function bitLength :: "int \<Rightarrow> nat" where
  "bitLength n = (if n \<le> 0 then 0 else Suc (bitLength (n div 2)))"
  by pat_completeness auto
termination
  by (relation "measure nat") auto

definition roundEven :: "real \<Rightarrow> int" where
  "roundEven y =
     (let f = \<lfloor>y\<rfloor>
      in if y - of_int f < 1 / 2 then f
         else if 1 / 2 < y - of_int f then f + 1
         else if even f then f else f + 1)"

definition quantumExp :: "real \<Rightarrow> nat" where
  "quantumExp x = bitLength \<lfloor>\<bar>x\<bar> * 2 ^ 1074\<rfloor> - 53"

definition toDouble :: "real \<Rightarrow> real" where
  "toDouble x =
     of_int (roundEven (x * 2 ^ 1074 / 2 ^ quantumExp x)) * 2 ^ quantumExp x / 2 ^ 1074"

subsection \<open>Configuration\<close>

definition DESIGN_WIDTH :: real where "DESIGN_WIDTH = 800"
definition DESIGN_HEIGHT :: real where "DESIGN_HEIGHT = 450"

definition BG_BULL :: nat where "BG_BULL = 989714"
definition BG_BEAR :: nat where "BG_BEAR = 988186"
definition CANDLE_BULL :: nat where "CANDLE_BULL = 3055683"
definition CANDLE_BEAR :: nat where "CANDLE_BEAR = 16273737"

definition PRICE_INTERVAL_MS :: real where "PRICE_INTERVAL_MS = 5000"

definition jumpVelocity :: real where "jumpVelocity = - 630"

subsection \<open>Data\<close>

datatype trend = Up | Down | Flat

text \<open>The text of the price label: the placeholder set by \<^verbatim>\<open>create\<close>, a formatted price, or
  the string \<^verbatim>\<open>"BTC: fetch error"\<close>.\<close>

datatype price_text = Placeholder | PriceShown real | FetchErrorText

text \<open>The part of the player's arcade body that the scene reads or writes.\<close>

record body =
  body_y :: real
  body_height :: real
  velocity_y :: real
  blocked_down :: bool
  touching_down :: bool

text \<open>
  One candle rectangle of the obstacle group. \<open>pair_no\<close> and \<open>is_top\<close> stand for the
  identity of the game object: \<open>pair_no\<close> is the ordinal of the \<^verbatim>\<open>spawnObstacle\<close> call that
  made it, \<open>is_top\<close> tells the top candle from the bottom one. \<open>scored\<close> is the property
  \<^verbatim>\<open>_scored\<close> (absent, hence falsy, on a new object).
\<close>

record obstacle =
  pair_no :: nat
  is_top :: bool
  ox :: real
  oy :: real
  oheight :: real
  colour :: nat
  ovx :: real
  ovy :: real
  scored :: bool

record scene =
  player_body :: body
  player_y :: real
  obstacles :: "obstacle list"
  groundY :: real
  score :: nat
  scoreText :: nat
  priceText :: price_text
  lastPrice :: "real option"
  curPrice :: "real option"
  priceTrend :: trend
  priceAcc :: real
  speed :: real
  spawnDelay :: real
  spawnAcc :: real
  gameOverShown :: bool
  bgColor :: nat
  overlays :: nat
  fetchCalls :: nat
  spawned :: nat

text \<open>
  \<open>scoreText\<close> is the number shown in the score label. \<open>bgColor\<close> is the camera's
  background colour. Three fields count calls the scene makes to its environment:
  \<open>overlays\<close> the game-over overlays built in the current scene run, \<open>fetchCalls\<close> the
  requests started, \<open>spawned\<close> the calls of \<^verbatim>\<open>spawnObstacle\<close> (it numbers the pairs).
\<close>

text \<open>The object as the field initialisers leave it. The fields declared with \<^verbatim>\<open>!\<close> have no
  value before \<^verbatim>\<open>create\<close> assigns them; they get placeholders here.\<close>

definition fresh :: scene where
  "fresh = \<lparr> player_body = \<lparr> body_y = 0, body_height = 0, velocity_y = 0,
                               blocked_down = False, touching_down = False \<rparr>,
             player_y = 0, obstacles = [], groundY = 0, score = 0, scoreText = 0,
             priceText = Placeholder, lastPrice = None, curPrice = None, priceTrend = Flat,
             priceAcc = 0, speed = 180, spawnDelay = 1200, spawnAcc = 0,
             gameOverShown = False, bgColor = BG_BEAR, overlays = 0, fetchCalls = 0,
             spawned = 0 \<rparr>"

subsection \<open>create\<close>

text \<open>
  \<^verbatim>\<open>create\<close> runs at every start of the scene, on the same object: the price fields are not
  assigned, so they survive a restart. The player is a circle of radius 18 centred at
  \<open>groundY - 18\<close>; its new body is 36 high with its top at \<open>groundY - 36\<close>, at rest and with
  no contact yet. The obstacle group is new and empty.
\<close>

definition create :: "scene \<Rightarrow> scene" where
  "create s =
     (let gy = real_of_int \<lfloor>DESIGN_HEIGHT * 0.85\<rfloor>
      in s\<lparr> groundY := gy,
            bgColor := BG_BEAR,
            player_body := \<lparr> body_y = gy - 36, body_height = 36, velocity_y = 0,
                             blocked_down = False, touching_down = False \<rparr>,
            player_y := gy - 18,
            obstacles := [],
            score := 0,
            scoreText := 0,
            priceText := Placeholder,
            overlays := 0,
            spawnAcc := 0,
            priceAcc := PRICE_INTERVAL_MS,
            spawnDelay := 1200,
            speed := 180,
            gameOverShown := False \<rparr>)"

subsection \<open>fetchPriceOnce\<close>

text \<open>
  The method suspends at two \<^verbatim>\<open>await\<close>s; the model is its continuation, applied to what the
  awaited calls produced:
  \<^item> \<open>FetchRejected\<close>: \<^verbatim>\<open>fetch\<close> rejects (network error);
  \<^item> \<open>JsonRejected ok\<close>: a response arrives, \<^verbatim>\<open>r.json()\<close> rejects (the body is not JSON);
  \<^item> \<open>JsonNull ok\<close>: the body is JSON \<^verbatim>\<open>null\<close>, so reading \<^verbatim>\<open>j.price\<close> throws;
  \<^item> \<open>Json ok p\<close>: any other JSON body, \<open>p\<close> being \<^verbatim>\<open>parseFloat(j.price)\<close> with \<open>None\<close> for
    \<open>NaN\<close>.
  \<open>ok\<close> is the response's \<^verbatim>\<open>r.ok\<close>; the method never reads it.
\<close>

datatype fetch_outcome =
    FetchRejected
  | JsonRejected bool
  | JsonNull bool
  | Json bool "real option"

definition fetchPriceOnce :: "fetch_outcome \<Rightarrow> scene \<Rightarrow> scene" where
  "fetchPriceOnce r s =
     (case r of
        FetchRejected \<Rightarrow> s\<lparr> priceText := FetchErrorText \<rparr>
      | JsonRejected ok \<Rightarrow> s\<lparr> priceText := FetchErrorText \<rparr>
      | JsonNull ok \<Rightarrow> s\<lparr> priceText := FetchErrorText \<rparr>
      | Json ok None \<Rightarrow> s
      | Json ok (Some p) \<Rightarrow>
          (let s1 = (if curPrice s \<noteq> None then s\<lparr> lastPrice := curPrice s \<rparr> else s);
               s2 = s1\<lparr> curPrice := Some p \<rparr>;
               s3 = s2\<lparr> priceTrend :=
                          (case lastPrice s2 of
                             None \<Rightarrow> Flat
                           | Some l \<Rightarrow> if p = l then Flat else if p > l then Up else Down) \<rparr>
           in s3\<lparr> priceText := PriceShown p,
                   bgColor := (if priceTrend s3 = Up then BG_BULL else BG_BEAR) \<rparr>))"

subsection \<open>tryJump\<close>

definition tryJump :: "scene \<Rightarrow> scene" where
  "tryJump s =
     (if gameOverShown s then s
      else let b = player_body s
           in if blocked_down b \<or> touching_down b
              then s\<lparr> player_body := b\<lparr> velocity_y := jumpVelocity \<rparr> \<rparr>
              else s)"

subsection \<open>onGameOver\<close>

definition onGameOver :: "scene \<Rightarrow> scene" where
  "onGameOver s =
     (if gameOverShown s then s
      else s\<lparr> gameOverShown := True,
              obstacles := map (\<lambda>obj. obj\<lparr> ovx := 0, ovy := 0 \<rparr>) (obstacles s),
              overlays := Suc (overlays s) \<rparr>)"

subsection \<open>spawnObstacle\<close>

text \<open>
  The random numbers are inputs: \<open>rand n\<close> holds the draws of the \<open>n\<close>-th call, namely the
  result of \<^verbatim>\<open>Math.random()\<close> and of the two calls of \<^verbatim>\<open>Phaser.Math.Between\<close>.

  Both candles get the velocity \<open>- speed\<close>, and then \<^verbatim>\<open>addMultiple\<close> puts them into the physics
  group. A physics group of the engine applies its default body settings to every object
  it takes in, the velocity 0 among them (\<open>groupDefaults\<close>): a new candle is at rest until the
  callback of \<^verbatim>\<open>children.each\<close> gives it its velocity, later in the same \<^verbatim>\<open>update\<close>.
\<close>

record draw =
  coin :: real
  gapTopDraw :: real
  gapDraw :: real

definition groupDefaults :: "obstacle \<Rightarrow> obstacle" where
  "groupDefaults obj = obj\<lparr> ovx := 0, ovy := 0 \<rparr>"

definition spawnObstacle :: "(nat \<Rightarrow> draw) \<Rightarrow> scene \<Rightarrow> scene" where
  "spawnObstacle rand s =
     (let d = rand (spawned s);
          spawnX = DESIGN_WIDTH + 24;
          bullish = (if priceTrend s = Up then True
                     else if priceTrend s = Down then False
                     else coin d < 0.5);
          gapTop = gapTopDraw d;
          gap = gapDraw d;
          topHeight = max 60 (gapTop - 40);
          top_candle = \<lparr> pair_no = spawned s, is_top = True, ox = spawnX, oy = topHeight / 2,
                         oheight = topHeight,
                         colour = (if bullish then CANDLE_BULL else CANDLE_BEAR),
                         ovx = - speed s, ovy = 0, scored = False \<rparr>;
          bottomY = groundY s;
          bottomHeight = max 80 (bottomY - (gapTop + gap));
          bottom_candle = \<lparr> pair_no = spawned s, is_top = False, ox = spawnX,
                            oy = bottomY - bottomHeight / 2, oheight = bottomHeight,
                            colour = (if bullish then CANDLE_BULL else CANDLE_BEAR),
                            ovx = - speed s, ovy = 0, scored = False \<rparr>
      in s\<lparr> obstacles := obstacles s @ map groupDefaults [top_candle, bottom_candle],
            spawned := Suc (spawned s) \<rparr>)"

subsection \<open>update\<close>

text \<open>The clamp of the player to the ground (the first block of \<^verbatim>\<open>update\<close>).\<close>

definition clampToGround :: "scene \<Rightarrow> scene" where
  "clampToGround s =
     (let b = player_body s
      in if body_y b + body_height b > groundY s
         then s\<lparr> player_body := b\<lparr> body_y := groundY s - body_height b,
                                    velocity_y := max 0 (velocity_y b) \<rparr> \<rparr>
         else s)"

text \<open>The price accumulator; the sum is a double. Starting the request changes nothing in
  the scene but the count of requests; its completion is a later event.\<close>

definition pollPrice :: "real \<Rightarrow> scene \<Rightarrow> scene" where
  "pollPrice delta s =
     (let s1 = s\<lparr> priceAcc := toDouble (priceAcc s + delta) \<rparr>
      in if priceAcc s1 \<ge> PRICE_INTERVAL_MS
         then s1\<lparr> priceAcc := 0, fetchCalls := Suc (fetchCalls s1) \<rparr>
         else s1)"

text \<open>
  The \<^verbatim>\<open>while\<close> loop of the spawn accumulator. It does not end when the spawn delay is
  not positive, so its result is optional. The subtraction is exact here. In the source it
  is an operation on doubles, which is exact as well when the accumulator is a double below
  \<open>2 ^ 53\<close> and the spawn delay an integer (see \<open>spawn_accumulator\<close>); an accumulator beyond
  that, some 285000 years of frame time, is outside what the model covers.
\<close>

partial_function (option) spawnLoop :: "(nat \<Rightarrow> draw) \<Rightarrow> scene \<Rightarrow> scene option" where
  "spawnLoop rand s =
     (if spawnAcc s \<ge> spawnDelay s
      then spawnLoop rand (spawnObstacle rand (s\<lparr> spawnAcc := spawnAcc s - spawnDelay s \<rparr>))
      else Some s)"

declare spawnLoop.simps [code]

text \<open>The scoring block: score, label, ramp of speed and spawn delay. The block also sets
  \<^verbatim>\<open>_scored\<close> on the object, which \<^verbatim>\<open>destroy\<close> removes from the group right after it; the
  model drops the object, so the assignment has no counterpart.\<close>

definition scoreRamp :: "scene \<Rightarrow> scene" where
  "scoreRamp s =
     (let s1 = s\<lparr> score := score s + 1 \<rparr>;
          s2 = s1\<lparr> scoreText := score s1 \<rparr>
      in s2\<lparr> speed := min (speed s2 + 8) 420,
              spawnDelay := max (spawnDelay s2 - 10) 885 \<rparr>)"

text \<open>
  The callback of \<^verbatim>\<open>children.each\<close>. The engine iterates over a copy of the group's entries,
  and \<^verbatim>\<open>destroy\<close> removes the object from the group. In the model the callback is folded
  over the old entries and the group is rebuilt: a destroyed object is dropped, a kept one
  is appended with its new velocity.
\<close>

definition visit :: "obstacle \<Rightarrow> scene \<Rightarrow> scene" where
  "visit obj s =
     (if ox obj < - 60
      then (if \<not> scored obj then scoreRamp s else s)
      else s\<lparr> obstacles := obstacles s @ [obj\<lparr> ovx := - speed s \<rparr>] \<rparr>)"

fun sweep :: "obstacle list \<Rightarrow> scene \<Rightarrow> scene" where
  "sweep [] s = s"
| "sweep (obj # objs) s = sweep objs (visit obj s)"

definition update :: "(nat \<Rightarrow> draw) \<Rightarrow> real \<Rightarrow> scene \<Rightarrow> scene option" where
  "update rand delta s =
     (if gameOverShown s then Some s
      else let s1 = clampToGround s;
               s2 = pollPrice delta s1
           in case spawnLoop rand (s2\<lparr> spawnAcc := toDouble (spawnAcc s2 + delta) \<rparr>) of
                None \<Rightarrow> None
              | Some s3 \<Rightarrow>
                  (let s4 = sweep (obstacles s3) (s3\<lparr> obstacles := [] \<rparr>)
                   in Some (if player_y s4 < - 40 then onGameOver s4 else s4)))"

subsection \<open>Events of a scene\<close>

text \<open>
  \<^item> \<open>Frame delta\<close>: the engine calls \<^verbatim>\<open>update\<close>;
  \<^item> \<open>Jump\<close>: SPACE or a pointer press calls \<^verbatim>\<open>tryJump\<close>;
  \<^item> \<open>Overlap\<close>: the engine reports an overlap of player and obstacle and calls
    \<^verbatim>\<open>onGameOver\<close>;
  \<^item> \<open>Restart\<close>: a key or a tap while the one-shot restart listeners are installed, that is
    after \<^verbatim>\<open>onGameOver\<close>; the scene starts again and \<^verbatim>\<open>create\<close> runs;
  \<^item> \<open>FetchDone r\<close>: a request completes with outcome \<open>r\<close>;
  \<^item> \<open>Physics b y xs\<close>: a physics step of the engine; it leaves the player's body as \<open>b\<close>,
    the player's \<open>y\<close> as \<open>y\<close> and the obstacles at the abscissas \<open>xs\<close>.
\<close>

datatype event =
    Frame real
  | Jump
  | Overlap
  | Restart
  | FetchDone fetch_outcome
  | Physics body real "real list"

fun moveTo :: "real list \<Rightarrow> obstacle list \<Rightarrow> obstacle list" where
  "moveTo (x # xs) (obj # objs) = obj\<lparr> ox := x \<rparr> # moveTo xs objs"
| "moveTo xs objs = objs"

fun step :: "(nat \<Rightarrow> draw) \<Rightarrow> event \<Rightarrow> scene \<Rightarrow> scene option" where
  "step rand (Frame delta) s = update rand delta s"
| "step rand Jump s = Some (tryJump s)"
| "step rand Overlap s = Some (onGameOver s)"
| "step rand Restart s = Some (if gameOverShown s then create s else s)"
| "step rand (FetchDone r) s = Some (fetchPriceOnce r s)"
| "step rand (Physics b y xs) s =
     Some (s\<lparr> player_body := b, player_y := y, obstacles := moveTo xs (obstacles s) \<rparr>)"

fun run :: "(nat \<Rightarrow> draw) \<Rightarrow> event list \<Rightarrow> scene \<Rightarrow> scene option" where
  "run rand [] s = Some s"
| "run rand (e # es) s = (case step rand e s of None \<Rightarrow> None | Some s' \<Rightarrow> run rand es s')"

section \<open>Auxiliary definitions\<close>

subsection \<open>Doubles\<close>

text \<open>\<open>onGrid x\<close>: \<open>x\<close> is a multiple of the quantum at its magnitude, that is a double.\<close>

definition onGrid :: "real \<Rightarrow> bool" where
  "onGrid x \<longleftrightarrow> x * 2 ^ 1074 / 2 ^ quantumExp x \<in> \<int>"

subsection \<open>A frame of update, unrolled\<close>

text \<open>
  \<open>spawnTimes rand n\<close> is \<open>n\<close> rounds of the body of the spawn loop. \<open>ident\<close> is the
  identity of a candle. \<open>counts obj\<close> is the condition under which the callback of
  \<^verbatim>\<open>children.each\<close> adds a point for \<open>obj\<close>. \<open>still\<close> forgets the velocity of a candle, the
  one thing the callback changes on a candle it keeps.
\<close>

fun spawnTimes :: "(nat \<Rightarrow> draw) \<Rightarrow> nat \<Rightarrow> scene \<Rightarrow> scene" where
  "spawnTimes rand 0 s = s"
| "spawnTimes rand (Suc n) s =
     spawnTimes rand n (spawnObstacle rand (s\<lparr> spawnAcc := spawnAcc s - spawnDelay s \<rparr>))"

definition ident :: "obstacle \<Rightarrow> nat \<times> bool" where
  "ident obj = (pair_no obj, is_top obj)"

definition counts :: "obstacle \<Rightarrow> bool" where
  "counts obj = (ox obj < - 60 \<and> \<not> scored obj)"

definition still :: "obstacle \<Rightarrow> obstacle" where
  "still obj = obj\<lparr> ovx := 0, ovy := 0 \<rparr>"

text \<open>What a run of spawns appends: new candles at the spawn abscissa, unscored, numbered
  from the old count on, each identity once.\<close>

definition newborn :: "nat \<Rightarrow> nat \<Rightarrow> obstacle list \<Rightarrow> bool" where
  "newborn k n objs \<longleftrightarrow>
     length objs = 2 * n \<and> distinct (map ident objs) \<and>
     (\<forall>obj \<in> set objs. ox obj = DESIGN_WIDTH + 24 \<and> \<not> scored obj \<and> ovy obj = 0 \<and>
        k \<le> pair_no obj \<and> pair_no obj < k + n)"

text \<open>The scene of a frame in play after the spawn loop, and at the end of the frame,
  when the spawn delay is positive.\<close>

definition afterSpawn :: "(nat \<Rightarrow> draw) \<Rightarrow> real \<Rightarrow> scene \<Rightarrow> scene" where
  "afterSpawn rand delta s =
     spawnTimes rand (nat \<lfloor>toDouble (spawnAcc s + delta) / spawnDelay s\<rfloor>)
       ((pollPrice delta (clampToGround s))\<lparr> spawnAcc := toDouble (spawnAcc s + delta) \<rparr>)"

definition frameEnd :: "(nat \<Rightarrow> draw) \<Rightarrow> real \<Rightarrow> scene \<Rightarrow> scene" where
  "frameEnd rand delta s =
     (let s3 = afterSpawn rand delta s;
          s4 = sweep (obstacles s3) (s3\<lparr> obstacles := [] \<rparr>)
      in if player_y s4 < - 40 then onGameOver s4 else s4)"

subsection \<open>The trend of a sequence of prices, as the specification words it\<close>

text \<open>
  \<open>classify prev p\<close> is the trend of the sample \<open>p\<close> after the sample \<open>prev\<close>: flat for
  the first sample and for an equal one, up for a greater one, down for a smaller one.
  \<open>spec_trace\<close> lists, for each sample in turn, the last price, the current price and the
  trend the specification asks for; \<open>price_trace\<close> lists what \<open>fetchPriceOnce\<close> leaves in
  the scene after each sample.
\<close>

fun classify :: "real option \<Rightarrow> real \<Rightarrow> trend" where
  "classify None p = Flat"
| "classify (Some q) p = (if p = q then Flat else if p > q then Up else Down)"

fun spec_trace :: "real option \<Rightarrow> real list \<Rightarrow> (real option \<times> real option \<times> trend) list" where
  "spec_trace prev [] = []"
| "spec_trace prev (p # ps) = (prev, Some p, classify prev p) # spec_trace (Some p) ps"

fun price_trace :: "bool \<Rightarrow> real list \<Rightarrow> scene \<Rightarrow> (real option \<times> real option \<times> trend) list" where
  "price_trace ok [] s = []"
| "price_trace ok (p # ps) s =
     (let s' = fetchPriceOnce (Json ok (Some p)) s
      in (lastPrice s', curPrice s', priceTrend s') # price_trace ok ps s')"

subsection \<open>Invariants of the reachable scenes\<close>

text \<open>\<open>ramp_ok\<close>: speed and spawn delay are the functions of the score that the ramp
  produces. \<open>price_ok\<close>: a last price comes with a current price, a trend that is not
  flat with both.\<close>

definition ramp_ok :: "scene \<Rightarrow> bool" where
  "ramp_ok s \<longleftrightarrow>
     speed s = min (180 + 8 * real (score s)) 420 \<and>
     spawnDelay s = max (1200 - 10 * real (score s)) 885"

definition price_ok :: "scene \<Rightarrow> bool" where
  "price_ok s \<longleftrightarrow>
     (lastPrice s \<noteq> None \<longrightarrow> curPrice s \<noteq> None) \<and>
     (priceTrend s \<noteq> Flat \<longrightarrow> lastPrice s \<noteq> None \<and> curPrice s \<noteq> None)"

subsection \<open>Sample inputs and counters\<close>

text \<open>Sample inputs for the concrete runs below: a source of random draws and the body of
  a player resting on the ground.\<close>

definition sampleDraws :: "nat \<Rightarrow> draw" where
  "sampleDraws n = \<lparr> coin = 1 / 4, gapTopDraw = 150, gapDraw = 280 \<rparr>"

definition restingBody :: body where
  "restingBody = \<lparr> body_y = 346, body_height = 36, velocity_y = 0,
                   blocked_down = True, touching_down = False \<rparr>"

text \<open>An event whose elapsed time, if it has one, is not negative.\<close>

fun timed :: "event \<Rightarrow> bool" where
  "timed (Frame delta) = (0 \<le> delta)"
| "timed e = True"

text \<open>The number of price samples parsed in a sequence of events.\<close>

fun parsed :: "event \<Rightarrow> bool" where
  "parsed (FetchDone (Json ok (Some p))) = True"
| "parsed e = False"

definition parses :: "event list \<Rightarrow> nat" where
  "parses es = length (filter parsed es)"

subsection \<open>The obstacle group and the log of scored candles\<close>

text \<open>
  \<open>group_ok\<close>: the candles of the group have distinct identities, were made by earlier
  calls of \<^verbatim>\<open>spawnObstacle\<close>, and none is flagged as scored. \<open>future s\<close> are the identities
  that are in the group or not yet made. \<open>frame_scored e s\<close> lists the candles that the
  event \<open>e\<close> counts in the scene \<open>s\<close>: those that a frame in play finds left of - 60 and
  not flagged; \<open>scored_log\<close> collects them along a run.
\<close>

definition group_ok :: "scene \<Rightarrow> bool" where
  "group_ok s \<longleftrightarrow>
     distinct (map ident (obstacles s)) \<and>
     (\<forall>p \<in> set (map pair_no (obstacles s)). p < spawned s) \<and>
     (\<forall>b \<in> set (map scored (obstacles s)). \<not> b)"

definition future :: "scene \<Rightarrow> (nat \<times> bool) set" where
  "future s = set (map ident (obstacles s)) \<union> {i. spawned s \<le> fst i}"

fun frame_scored :: "event \<Rightarrow> scene \<Rightarrow> (nat \<times> bool) list" where
  "frame_scored (Frame delta) s =
     (if gameOverShown s then [] else map ident (filter counts (obstacles s)))"
| "frame_scored e s = []"

fun scored_log :: "(nat \<Rightarrow> draw) \<Rightarrow> event list \<Rightarrow> scene \<Rightarrow> (nat \<times> bool) list" where
  "scored_log rand [] s = []"
| "scored_log rand (e # es) s =
     frame_scored e s @
     (case step rand e s of None \<Rightarrow> [] | Some s' \<Rightarrow> scored_log rand es s')"

subsection \<open>Game over\<close>

text \<open>\<open>unplaced\<close> forgets the abscissa of a candle, the one field the engine moves.
  \<open>over_ok\<close>: one overlay exists exactly when the game is over, and then every obstacle
  is at rest.\<close>

definition unplaced :: "obstacle \<Rightarrow> obstacle" where
  "unplaced obj = obj\<lparr> ox := 0 \<rparr>"

definition over_ok :: "scene \<Rightarrow> bool" where
  "over_ok s \<longleftrightarrow>
     overlays s = (if gameOverShown s then 1 else 0) \<and>
     (gameOverShown s \<longrightarrow> (\<forall>obj \<in> set (obstacles s). ovx obj = 0 \<and> ovy obj = 0))"

section \<open>Basic lemmas\<close>

subsection \<open>Doubles\<close>

declare bitLength.simps [simp del]

lemma bitLength_Suc_le: "bitLength n \<le> Suc k \<longleftrightarrow> n \<le> 0 \<or> bitLength (n div 2) \<le> k"
  by (subst bitLength.simps) simp

lemma half_less_iff: "(n::int) div 2 < m \<longleftrightarrow> n < 2 * m"
  by presburger

lemma bitLength_le_iff: "bitLength n \<le> k \<longleftrightarrow> n < 2 ^ k"
proof (induction k arbitrary: n)
  case 0
  show ?case by (subst bitLength.simps) auto
next
  case (Suc k)
  have pos: "(0::int) < 2 ^ k" by simp
  have "bitLength n \<le> Suc k \<longleftrightarrow> n \<le> 0 \<or> n div 2 < 2 ^ k"
    unfolding bitLength_Suc_le Suc.IH ..
  also have "\<dots> \<longleftrightarrow> n < 2 * 2 ^ k"
    using pos unfolding half_less_iff by linarith
  finally show ?case by simp
qed

lemma roundEven_of_int [simp]: "roundEven (of_int i) = i"
  by (simp add: roundEven_def)

lemma roundEven_Ints: "y \<in> \<int> \<Longrightarrow> of_int (roundEven y) = y"
  by (auto elim: Ints_cases)

lemma roundEven_bounds:
  assumes "of_int a \<le> y" and "y \<le> of_int b"
  shows "a \<le> roundEven y" and "roundEven y \<le> b"
proof -
  have fl: "a \<le> \<lfloor>y\<rfloor>" using assms(1) by (simp add: le_floor_iff)
  have "\<lfloor>y\<rfloor> \<le> roundEven y" by (simp add: roundEven_def Let_def)
  with fl show "a \<le> roundEven y" by simp
  show "roundEven y \<le> b"
  proof (cases "y = of_int b")
    case True
    then show ?thesis by simp
  next
    case False
    with assms(2) have "y < of_int b" by simp
    then have "\<lfloor>y\<rfloor> < b" by (simp add: floor_less_iff)
    moreover have "roundEven y \<le> \<lfloor>y\<rfloor> + 1" by (simp add: roundEven_def Let_def)
    ultimately show ?thesis by simp
  qed
qed

lemma quantumExp_le_iff: "quantumExp x \<le> k \<longleftrightarrow> \<bar>x\<bar> * 2 ^ 1074 < 2 ^ (k + 53)"
proof -
  have "quantumExp x \<le> k \<longleftrightarrow> bitLength \<lfloor>\<bar>x\<bar> * 2 ^ 1074\<rfloor> \<le> k + 53"
    by (auto simp: quantumExp_def)
  also have "\<dots> \<longleftrightarrow> \<lfloor>\<bar>x\<bar> * 2 ^ 1074\<rfloor> < 2 ^ (k + 53)" by (rule bitLength_le_iff)
  also have "\<dots> \<longleftrightarrow> \<bar>x\<bar> * 2 ^ 1074 < 2 ^ (k + 53)"
    by (simp add: floor_less_iff)
  finally show ?thesis .
qed

lemma quantumExp_mono: "\<bar>x\<bar> \<le> \<bar>y\<bar> \<Longrightarrow> quantumExp x \<le> quantumExp y"
proof -
  assume le: "\<bar>x\<bar> \<le> \<bar>y\<bar>"
  have "\<bar>y\<bar> * 2 ^ 1074 < 2 ^ (quantumExp y + 53)"
    using quantumExp_le_iff[of y "quantumExp y"] by simp
  moreover have "\<bar>x\<bar> * 2 ^ 1074 \<le> \<bar>y\<bar> * 2 ^ 1074" using le by simp
  ultimately have "\<bar>x\<bar> * 2 ^ 1074 < 2 ^ (quantumExp y + 53)" by linarith
  then show ?thesis by (simp add: quantumExp_le_iff)
qed

lemma onGrid_toDouble: "onGrid x \<Longrightarrow> toDouble x = x"
  by (simp add: onGrid_def toDouble_def roundEven_Ints)

lemma pow2_div_Ints:
  fixes z :: real
  assumes "z / 2 ^ k \<in> \<int>" and "k' \<le> k"
  shows "z / 2 ^ k' \<in> \<int>"
proof -
  have "z / 2 ^ k' = (z / 2 ^ k) * 2 ^ (k - k')"
    using assms(2) by (simp add: power_diff)
  also have "\<dots> \<in> \<int>" using assms(1) by (intro Ints_mult) simp_all
  finally show ?thesis .
qed

lemma onGrid_diff:
  assumes a: "onGrid a" and d: "d * 2 ^ 1074 / 2 ^ quantumExp a \<in> \<int>"
    and le: "\<bar>a - d\<bar> \<le> \<bar>a\<bar>"
  shows "onGrid (a - d)"
proof -
  have "(a - d) * 2 ^ 1074 / 2 ^ quantumExp a =
        a * 2 ^ 1074 / 2 ^ quantumExp a - d * 2 ^ 1074 / 2 ^ quantumExp a"
    by (simp add: algebra_simps diff_divide_distrib)
  also have "\<dots> \<in> \<int>" using a d by (simp add: onGrid_def)
  finally have "(a - d) * 2 ^ 1074 / 2 ^ quantumExp a \<in> \<int>" .
  then show ?thesis
    unfolding onGrid_def using quantumExp_mono[OF le] by (rule pow2_div_Ints)
qed

lemma int_on_small_grid:
  fixes a d :: real
  assumes "\<bar>a\<bar> < 2 ^ 53" and "d \<in> \<int>"
  shows "d * 2 ^ 1074 / 2 ^ quantumExp a \<in> \<int>"
proof -
  have "\<bar>a\<bar> * 2 ^ 1074 < 2 ^ 53 * 2 ^ 1074" using assms(1) by simp
  then have "\<bar>a\<bar> * 2 ^ 1074 < 2 ^ (1074 + 53)" by (simp add: power_add)
  then have k: "quantumExp a \<le> 1074" by (simp only: quantumExp_le_iff)
  have e: "(2::real) ^ 1074 = 2 ^ (1074 - quantumExp a) * 2 ^ quantumExp a"
    using k by (metis le_add_diff_inverse2 power_add)
  have "d * 2 ^ 1074 / 2 ^ quantumExp a = d * 2 ^ (1074 - quantumExp a)"
    unfolding e by simp
  also have "\<dots> \<in> \<int>" using assms(2) by (intro Ints_mult) simp_all
  finally show ?thesis .
qed

lemma toDouble_nonneg: "0 \<le> x \<Longrightarrow> 0 \<le> toDouble x"
proof -
  assume "0 \<le> x"
  then have "of_int 0 \<le> x * 2 ^ 1074 / 2 ^ quantumExp x" by simp
  then have "0 \<le> roundEven (x * 2 ^ 1074 / 2 ^ quantumExp x)"
    using roundEven_bounds(1)[of 0 "x * 2 ^ 1074 / 2 ^ quantumExp x" 0] 
    by (simp add: roundEven_def Let_def)
  then show ?thesis by (simp add: toDouble_def)
qed

lemma onGrid_of_toDouble:
  assumes "0 \<le> x"
  shows "onGrid (toDouble x)"
proof -
  let ?k = "quantumExp x"
  let ?y = "x * 2 ^ 1074 / 2 ^ ?k"
  let ?m = "roundEven ?y"
  have y0: "of_int 0 \<le> ?y" using assms by simp
  have "\<bar>x\<bar> * 2 ^ 1074 < 2 ^ (?k + 53)" using quantumExp_le_iff[of x ?k] by simp
  then have "x * 2 ^ 1074 < 2 ^ ?k * 2 ^ 53" using assms by (simp add: power_add)
  then have "?y < 2 ^ 53" by (simp add: pos_divide_less_eq mult.commute)
  then have y1: "?y \<le> of_int (2 ^ 53)" by simp
  have m0: "0 \<le> ?m" using roundEven_bounds(1)[OF y0 y1] by simp
  have m1: "?m \<le> 2 ^ 53" using roundEven_bounds(2)[OF y0 y1] by simp
  have t: "toDouble x * 2 ^ 1074 = of_int ?m * 2 ^ ?k" by (simp add: toDouble_def)
  have t0: "0 \<le> toDouble x" using assms by (rule toDouble_nonneg)
  let ?k' = "quantumExp (toDouble x)"
  show ?thesis
  proof (cases "?m = 2 ^ 53")
    case True
    then have v: "toDouble x * 2 ^ 1074 = 2 ^ (?k + 53)" using t by (simp add: power_add)
    have "\<bar>toDouble x\<bar> * 2 ^ 1074 < 2 ^ (Suc ?k + 53)" using t0 v by simp
    then have "?k' \<le> Suc ?k" by (simp only: quantumExp_le_iff)
    then have "?k' \<le> ?k + 53" by simp
    then have "(2::real) ^ (?k + 53) / 2 ^ ?k' = 2 ^ (?k + 53 - ?k')"
      by (simp add: power_diff)
    then have "toDouble x * 2 ^ 1074 / 2 ^ ?k' \<in> \<int>" using v by simp
    then show ?thesis by (simp add: onGrid_def)
  next
    case False
    with m1 have "?m < 2 ^ 53" by simp
    then have "real_of_int ?m < 2 ^ 53" by (metis of_int_less_iff of_int_numeral of_int_power)
    then have "real_of_int ?m * 2 ^ ?k < 2 ^ 53 * 2 ^ ?k" by simp
    then have "\<bar>toDouble x\<bar> * 2 ^ 1074 < 2 ^ (?k + 53)"
      using t0 t by (simp add: power_add mult.commute)
    then have k: "?k' \<le> ?k" by (simp only: quantumExp_le_iff)
    have "toDouble x * 2 ^ 1074 / 2 ^ ?k = of_int ?m" using t by simp
    then have "toDouble x * 2 ^ 1074 / 2 ^ ?k \<in> \<int>" by simp
    then have "toDouble x * 2 ^ 1074 / 2 ^ ?k' \<in> \<int>" using k by (rule pow2_div_Ints)
    then show ?thesis by (simp add: onGrid_def)
  qed
qed


lemma roundEven_zero [simp]: "roundEven 0 = 0"
  by (simp add: roundEven_def)

lemma toDouble_zero [simp]: "toDouble 0 = 0"
  by (simp add: toDouble_def)

lemma toDouble_int:
  fixes x :: real
  assumes "\<bar>x\<bar> < 2 ^ 53" and "x \<in> \<int>"
  shows "toDouble x = x"
proof -
  have "x * 2 ^ 1074 / 2 ^ quantumExp x \<in> \<int>" using assms by (rule int_on_small_grid)
  then show ?thesis by (simp only: onGrid_toDouble onGrid_def)
qed

lemma toDouble_numeral:
  "(numeral w :: real) < 2 ^ 53 \<Longrightarrow> toDouble (numeral w) = numeral w"
  by (rule toDouble_int) simp_all

lemma toDouble_normal:
  assumes lo: "2 ^ e \<le> \<bar>x\<bar>" and hi: "\<bar>x\<bar> < 2 ^ Suc e"
  shows "toDouble x = of_int (roundEven (x * 2 ^ 52 / 2 ^ e)) * 2 ^ e / 2 ^ 52"
proof -
  have up: "(2::real) ^ (e + 1022 + 53) = 2 ^ Suc e * 2 ^ 1074" by (simp add: power_add)
  have dn: "(2::real) ^ (e + 1021 + 53) = 2 ^ e * 2 ^ 1074" by (simp add: power_add)
  have "\<bar>x\<bar> * 2 ^ 1074 < 2 ^ (e + 1022 + 53)" unfolding up using hi by simp
  then have le: "quantumExp x \<le> e + 1022" by (simp only: quantumExp_le_iff)
  have "\<not> \<bar>x\<bar> * 2 ^ 1074 < 2 ^ (e + 1021 + 53)" unfolding dn using lo by simp
  then have "\<not> quantumExp x \<le> e + 1021" by (simp only: quantumExp_le_iff simp_thms)
  with le have k: "quantumExp x = e + 1022" by simp
  have sc: "(2::real) ^ 1074 = 2 ^ 52 * 2 ^ 1022" by simp
  have a: "x * 2 ^ 1074 / 2 ^ (e + 1022) = x * 2 ^ 52 / 2 ^ e"
    unfolding sc power_add by simp
  have b: "real_of_int m * 2 ^ (e + 1022) / 2 ^ 1074 = real_of_int m * 2 ^ e / 2 ^ 52" for m
    unfolding sc power_add by simp
  show ?thesis unfolding toDouble_def k a b ..
qed

subsection \<open>spawnObstacle and the spawn loop\<close>

lemma spawnObstacle_same [simp]:
  "speed (spawnObstacle rand s) = speed s"
  "spawnDelay (spawnObstacle rand s) = spawnDelay s"
  "spawnAcc (spawnObstacle rand s) = spawnAcc s"
  "score (spawnObstacle rand s) = score s"
  "scoreText (spawnObstacle rand s) = scoreText s"
  "priceText (spawnObstacle rand s) = priceText s"
  "priceTrend (spawnObstacle rand s) = priceTrend s"
  "lastPrice (spawnObstacle rand s) = lastPrice s"
  "curPrice (spawnObstacle rand s) = curPrice s"
  "priceAcc (spawnObstacle rand s) = priceAcc s"
  "gameOverShown (spawnObstacle rand s) = gameOverShown s"
  "overlays (spawnObstacle rand s) = overlays s"
  "fetchCalls (spawnObstacle rand s) = fetchCalls s"
  "bgColor (spawnObstacle rand s) = bgColor s"
  "groundY (spawnObstacle rand s) = groundY s"
  "player_y (spawnObstacle rand s) = player_y s"
  "player_body (spawnObstacle rand s) = player_body s"
  "spawned (spawnObstacle rand s) = Suc (spawned s)"
  by (simp_all add: spawnObstacle_def Let_def)

lemma spawnTimes_spawnDelay [simp]: "spawnDelay (spawnTimes rand n s) = spawnDelay s"
  by (induction n arbitrary: s) simp_all

lemma spawnTimes_spawnAcc [simp]:
  "spawnAcc (spawnTimes rand n s) = spawnAcc s - real n * spawnDelay s"
proof (induction n arbitrary: s)
  case 0
  show ?case by simp
next
  case (Suc n)
  show ?case by (simp add: Suc.IH algebra_simps)
qed

lemma spawnLoop_stop: "spawnAcc s < spawnDelay s \<Longrightarrow> spawnLoop rand s = Some s"
  by (subst spawnLoop.simps) simp

lemma spawnLoop_go:
  "spawnDelay s \<le> spawnAcc s \<Longrightarrow>
   spawnLoop rand s = spawnLoop rand (spawnObstacle rand (s\<lparr> spawnAcc := spawnAcc s - spawnDelay s \<rparr>))"
  by (subst spawnLoop.simps) simp

lemma spawnLoop_eq:
  "0 < spawnDelay s \<Longrightarrow>
   spawnLoop rand s = Some (spawnTimes rand (nat \<lfloor>spawnAcc s / spawnDelay s\<rfloor>) s)"
proof (induction "nat \<lfloor>spawnAcc s / spawnDelay s\<rfloor>" arbitrary: s)
  case 0
  then have "\<lfloor>spawnAcc s / spawnDelay s\<rfloor> \<le> 0" by simp
  then have "spawnAcc s / spawnDelay s < 1" by linarith
  with 0 have "spawnAcc s < spawnDelay s" by (simp add: divide_simps)
  with 0 show ?case by (simp add: spawnLoop_stop)
next
  case (Suc n)
  let ?s = "spawnObstacle rand (s\<lparr> spawnAcc := spawnAcc s - spawnDelay s \<rparr>)"
  from Suc.hyps(2) have fl: "\<lfloor>spawnAcc s / spawnDelay s\<rfloor> = int n + 1" by linarith
  then have "1 \<le> spawnAcc s / spawnDelay s" by linarith
  with Suc.prems have ge: "spawnDelay s \<le> spawnAcc s" by (simp add: divide_simps)
  have "spawnAcc ?s / spawnDelay ?s = spawnAcc s / spawnDelay s - 1"
    using Suc.prems by (simp add: field_simps)
  then have "\<lfloor>spawnAcc ?s / spawnDelay ?s\<rfloor> = int n" using fl by simp
  then have n: "n = nat \<lfloor>spawnAcc ?s / spawnDelay ?s\<rfloor>" by simp
  have "spawnLoop rand ?s = Some (spawnTimes rand n ?s)"
    using Suc.hyps(1)[OF n] Suc.prems n by simp
  then show ?case using ge Suc.hyps(2)[symmetric] by (simp add: spawnLoop_go)
qed

lemma still_fields [simp]:
  "ident (still obj) = ident obj" "ox (still obj) = ox obj" "scored (still obj) = scored obj"
  "pair_no (still obj) = pair_no obj" "is_top (still obj) = is_top obj"
  "still (obj\<lparr> ovx := v \<rparr>) = still obj"
  by (simp_all add: still_def ident_def)

lemma spawnObstacle_obstacles:
  "\<exists>t b. obstacles (spawnObstacle rand s) = obstacles s @ [t, b]
     \<and> ident t = (spawned s, True) \<and> ident b = (spawned s, False)
     \<and> ox t = DESIGN_WIDTH + 24 \<and> ox b = DESIGN_WIDTH + 24
     \<and> \<not> scored t \<and> \<not> scored b \<and> ovx t = 0 \<and> ovx b = 0
     \<and> ovy t = 0 \<and> ovy b = 0"
  by (simp add: spawnObstacle_def groupDefaults_def Let_def ident_def)

lemma spawnTimes_same [simp]:
  "speed (spawnTimes rand n s) = speed s"
  "score (spawnTimes rand n s) = score s"
  "scoreText (spawnTimes rand n s) = scoreText s"
  "priceText (spawnTimes rand n s) = priceText s"
  "priceTrend (spawnTimes rand n s) = priceTrend s"
  "lastPrice (spawnTimes rand n s) = lastPrice s"
  "curPrice (spawnTimes rand n s) = curPrice s"
  "priceAcc (spawnTimes rand n s) = priceAcc s"
  "gameOverShown (spawnTimes rand n s) = gameOverShown s"
  "overlays (spawnTimes rand n s) = overlays s"
  "fetchCalls (spawnTimes rand n s) = fetchCalls s"
  "bgColor (spawnTimes rand n s) = bgColor s"
  "groundY (spawnTimes rand n s) = groundY s"
  "player_y (spawnTimes rand n s) = player_y s"
  "player_body (spawnTimes rand n s) = player_body s"
  "spawned (spawnTimes rand n s) = spawned s + n"
  by (induction n arbitrary: s) simp_all

lemma spawnTimes_obstacles:
  "\<exists>new. obstacles (spawnTimes rand n s) = obstacles s @ new \<and> newborn (spawned s) n new"
proof (induction n arbitrary: s)
  case 0
  show ?case by (simp add: newborn_def)
next
  case (Suc n)
  let ?s = "spawnObstacle rand (s\<lparr> spawnAcc := spawnAcc s - spawnDelay s \<rparr>)"
  obtain t b where tb: "obstacles ?s = obstacles s @ [t, b]"
      "ident t = (spawned s, True)" "ident b = (spawned s, False)"
      "ox t = DESIGN_WIDTH + 24" "ox b = DESIGN_WIDTH + 24" "\<not> scored t" "\<not> scored b"
      "ovy t = 0" "ovy b = 0"
    using spawnObstacle_obstacles[of rand "s\<lparr> spawnAcc := spawnAcc s - spawnDelay s \<rparr>"]
    by auto
  obtain new where new: "obstacles (spawnTimes rand n ?s) = obstacles ?s @ new"
      "newborn (spawned ?s) n new"
    using Suc.IH[of ?s] by blast
  have p: "pair_no t = spawned s" "pair_no b = spawned s"
    using tb(2,3) by (simp_all add: ident_def)
  have "newborn (spawned s) (Suc n) ([t, b] @ new)"
    using new(2) tb(2-) p
    by (auto simp: newborn_def ident_def image_iff)
  then show ?case using new(1) tb(1) by simp
qed

subsection \<open>visit and sweep\<close>

lemma scoreRamp_fields [simp]:
  "score (scoreRamp s) = Suc (score s)"
  "scoreText (scoreRamp s) = Suc (score s)"
  "speed (scoreRamp s) = min (speed s + 8) 420"
  "spawnDelay (scoreRamp s) = max (spawnDelay s - 10) 885"
  "obstacles (scoreRamp s) = obstacles s"
  "spawnAcc (scoreRamp s) = spawnAcc s"
  "priceText (scoreRamp s) = priceText s"
  "priceTrend (scoreRamp s) = priceTrend s"
  "lastPrice (scoreRamp s) = lastPrice s"
  "curPrice (scoreRamp s) = curPrice s"
  "priceAcc (scoreRamp s) = priceAcc s"
  "gameOverShown (scoreRamp s) = gameOverShown s"
  "overlays (scoreRamp s) = overlays s"
  "fetchCalls (scoreRamp s) = fetchCalls s"
  "bgColor (scoreRamp s) = bgColor s"
  "groundY (scoreRamp s) = groundY s"
  "player_y (scoreRamp s) = player_y s"
  "player_body (scoreRamp s) = player_body s"
  "spawned (scoreRamp s) = spawned s"
  by (simp_all add: scoreRamp_def Let_def)

lemma visit_same [simp]:
  "spawnAcc (visit obj s) = spawnAcc s"
  "priceText (visit obj s) = priceText s"
  "priceTrend (visit obj s) = priceTrend s"
  "lastPrice (visit obj s) = lastPrice s"
  "curPrice (visit obj s) = curPrice s"
  "priceAcc (visit obj s) = priceAcc s"
  "gameOverShown (visit obj s) = gameOverShown s"
  "overlays (visit obj s) = overlays s"
  "fetchCalls (visit obj s) = fetchCalls s"
  "bgColor (visit obj s) = bgColor s"
  "groundY (visit obj s) = groundY s"
  "player_y (visit obj s) = player_y s"
  "player_body (visit obj s) = player_body s"
  "spawned (visit obj s) = spawned s"
  by (simp_all add: visit_def)

lemma sweep_same [simp]:
  "spawnAcc (sweep objs s) = spawnAcc s"
  "priceText (sweep objs s) = priceText s"
  "priceTrend (sweep objs s) = priceTrend s"
  "lastPrice (sweep objs s) = lastPrice s"
  "curPrice (sweep objs s) = curPrice s"
  "priceAcc (sweep objs s) = priceAcc s"
  "gameOverShown (sweep objs s) = gameOverShown s"
  "overlays (sweep objs s) = overlays s"
  "fetchCalls (sweep objs s) = fetchCalls s"
  "bgColor (sweep objs s) = bgColor s"
  "groundY (sweep objs s) = groundY s"
  "player_y (sweep objs s) = player_y s"
  "player_body (sweep objs s) = player_body s"
  "spawned (sweep objs s) = spawned s"
  by (induction objs arbitrary: s) simp_all

lemma visit_score: "score (visit obj s) = score s + (if counts obj then 1 else 0)"
  by (simp add: visit_def counts_def)

lemma sweep_score: "score (sweep objs s) = score s + length (filter counts objs)"
  by (induction objs arbitrary: s) (simp_all add: visit_score)

lemma sweep_scoreText:
  "scoreText s = score s \<Longrightarrow> scoreText (sweep objs s) = score (sweep objs s)"
  by (induction objs arbitrary: s) (simp_all add: visit_def)

lemma visit_obstacles:
  "map still (obstacles (visit obj s)) =
   map still (obstacles s) @ (if ox obj < - 60 then [] else [still obj])"
  by (simp add: visit_def)

lemma sweep_obstacles:
  "map still (obstacles (sweep objs s)) =
   map still (obstacles s) @ map still (filter (\<lambda>obj. \<not> ox obj < - 60) objs)"
  by (induction objs arbitrary: s) (simp_all add: visit_obstacles)

lemma sweep_ovy:
  "map ovy (obstacles (sweep objs s)) =
   map ovy (obstacles s) @ map ovy (filter (\<lambda>obj. \<not> ox obj < - 60) objs)"
  by (induction objs arbitrary: s) (simp_all add: visit_def)

lemma clampToGround_same [simp]:
  "obstacles (clampToGround s) = obstacles s"
  "score (clampToGround s) = score s"
  "scoreText (clampToGround s) = scoreText s"
  "speed (clampToGround s) = speed s"
  "spawnDelay (clampToGround s) = spawnDelay s"
  "spawnAcc (clampToGround s) = spawnAcc s"
  "priceText (clampToGround s) = priceText s"
  "priceTrend (clampToGround s) = priceTrend s"
  "lastPrice (clampToGround s) = lastPrice s"
  "curPrice (clampToGround s) = curPrice s"
  "priceAcc (clampToGround s) = priceAcc s"
  "gameOverShown (clampToGround s) = gameOverShown s"
  "overlays (clampToGround s) = overlays s"
  "fetchCalls (clampToGround s) = fetchCalls s"
  "bgColor (clampToGround s) = bgColor s"
  "groundY (clampToGround s) = groundY s"
  "player_y (clampToGround s) = player_y s"
  "spawned (clampToGround s) = spawned s"
  by (simp_all add: clampToGround_def Let_def)

lemma pollPrice_same [simp]:
  "obstacles (pollPrice delta s) = obstacles s"
  "score (pollPrice delta s) = score s"
  "scoreText (pollPrice delta s) = scoreText s"
  "speed (pollPrice delta s) = speed s"
  "spawnDelay (pollPrice delta s) = spawnDelay s"
  "spawnAcc (pollPrice delta s) = spawnAcc s"
  "priceText (pollPrice delta s) = priceText s"
  "priceTrend (pollPrice delta s) = priceTrend s"
  "lastPrice (pollPrice delta s) = lastPrice s"
  "curPrice (pollPrice delta s) = curPrice s"
  "gameOverShown (pollPrice delta s) = gameOverShown s"
  "overlays (pollPrice delta s) = overlays s"
  "bgColor (pollPrice delta s) = bgColor s"
  "groundY (pollPrice delta s) = groundY s"
  "player_y (pollPrice delta s) = player_y s"
  "player_body (pollPrice delta s) = player_body s"
  "spawned (pollPrice delta s) = spawned s"
  by (simp_all add: pollPrice_def Let_def)

lemma onGameOver_same [simp]:
  "score (onGameOver s) = score s"
  "scoreText (onGameOver s) = scoreText s"
  "speed (onGameOver s) = speed s"
  "spawnDelay (onGameOver s) = spawnDelay s"
  "spawnAcc (onGameOver s) = spawnAcc s"
  "priceText (onGameOver s) = priceText s"
  "priceTrend (onGameOver s) = priceTrend s"
  "lastPrice (onGameOver s) = lastPrice s"
  "curPrice (onGameOver s) = curPrice s"
  "priceAcc (onGameOver s) = priceAcc s"
  "fetchCalls (onGameOver s) = fetchCalls s"
  "bgColor (onGameOver s) = bgColor s"
  "groundY (onGameOver s) = groundY s"
  "player_y (onGameOver s) = player_y s"
  "player_body (onGameOver s) = player_body s"
  "spawned (onGameOver s) = spawned s"
  "gameOverShown (onGameOver s)"
  "map still (obstacles (onGameOver s)) = map still (obstacles s)"
  by (simp_all add: onGameOver_def still_def)

lemma update_over: "gameOverShown s \<Longrightarrow> update rand delta s = Some s"
  by (simp add: update_def)

lemma update_play:
  assumes "\<not> gameOverShown s" and "0 < spawnDelay s"
  shows "update rand delta s = Some (frameEnd rand delta s)"
proof -
  let ?s2 = "(pollPrice delta (clampToGround s))\<lparr> spawnAcc := toDouble (spawnAcc s + delta) \<rparr>"
  have "spawnLoop rand ?s2 = Some (afterSpawn rand delta s)"
    using assms(2) spawnLoop_eq[of ?s2 rand] by (simp add: afterSpawn_def)
  then show ?thesis using assms(1) by (simp add: update_def frameEnd_def Let_def)
qed

lemma afterSpawn_same [simp]:
  "speed (afterSpawn rand delta s) = speed s"
  "spawnDelay (afterSpawn rand delta s) = spawnDelay s"
  "score (afterSpawn rand delta s) = score s"
  "scoreText (afterSpawn rand delta s) = scoreText s"
  "priceText (afterSpawn rand delta s) = priceText s"
  "priceTrend (afterSpawn rand delta s) = priceTrend s"
  "lastPrice (afterSpawn rand delta s) = lastPrice s"
  "curPrice (afterSpawn rand delta s) = curPrice s"
  "gameOverShown (afterSpawn rand delta s) = gameOverShown s"
  "overlays (afterSpawn rand delta s) = overlays s"
  "bgColor (afterSpawn rand delta s) = bgColor s"
  "groundY (afterSpawn rand delta s) = groundY s"
  "player_y (afterSpawn rand delta s) = player_y s"
  "spawned (afterSpawn rand delta s) = spawned s + nat \<lfloor>toDouble (spawnAcc s + delta) / spawnDelay s\<rfloor>"
  "spawnAcc (afterSpawn rand delta s) =
     toDouble (spawnAcc s + delta) - real (nat \<lfloor>toDouble (spawnAcc s + delta) / spawnDelay s\<rfloor>) * spawnDelay s"
  by (simp_all add: afterSpawn_def)

lemma afterSpawn_obstacles:
  "\<exists>new. obstacles (afterSpawn rand delta s) = obstacles s @ new \<and>
         newborn (spawned s) (nat \<lfloor>toDouble (spawnAcc s + delta) / spawnDelay s\<rfloor>) new"
  using spawnTimes_obstacles
    [of rand "nat \<lfloor>toDouble (spawnAcc s + delta) / spawnDelay s\<rfloor>"
        "(pollPrice delta (clampToGround s))\<lparr> spawnAcc := toDouble (spawnAcc s + delta) \<rparr>"]
  by (simp add: afterSpawn_def)

lemma newborn_not_counts: "newborn k n new \<Longrightarrow> filter counts new = []"
  by (auto simp: newborn_def counts_def DESIGN_WIDTH_def filter_empty_conv)

lemma newborn_kept: "newborn k n new \<Longrightarrow> filter (\<lambda>obj. \<not> ox obj < - 60) new = new"
  by (auto simp: newborn_def DESIGN_WIDTH_def filter_id_conv)

lemma frameEnd_same [simp]:
  "priceText (frameEnd rand delta s) = priceText s"
  "priceTrend (frameEnd rand delta s) = priceTrend s"
  "lastPrice (frameEnd rand delta s) = lastPrice s"
  "curPrice (frameEnd rand delta s) = curPrice s"
  "bgColor (frameEnd rand delta s) = bgColor s"
  "groundY (frameEnd rand delta s) = groundY s"
  "player_y (frameEnd rand delta s) = player_y s"
  "spawned (frameEnd rand delta s) = spawned s + nat \<lfloor>toDouble (spawnAcc s + delta) / spawnDelay s\<rfloor>"
  "spawnAcc (frameEnd rand delta s) =
     toDouble (spawnAcc s + delta) - real (nat \<lfloor>toDouble (spawnAcc s + delta) / spawnDelay s\<rfloor>) * spawnDelay s"
  by (simp_all add: frameEnd_def Let_def)

lemma frameEnd_score:
  "score (frameEnd rand delta s) = score s + length (filter counts (obstacles s))"
proof -
  obtain new where new: "obstacles (afterSpawn rand delta s) = obstacles s @ new"
      "newborn (spawned s) (nat \<lfloor>toDouble (spawnAcc s + delta) / spawnDelay s\<rfloor>) new"
    using afterSpawn_obstacles by blast
  show ?thesis
    by (simp add: frameEnd_def Let_def sweep_score new(1) newborn_not_counts[OF new(2)])
qed

lemma frameEnd_obstacles:
  "\<exists>new. map still (obstacles (frameEnd rand delta s)) =
           map still (filter (\<lambda>obj. \<not> ox obj < - 60) (obstacles s)) @ map still new \<and>
         newborn (spawned s) (nat \<lfloor>toDouble (spawnAcc s + delta) / spawnDelay s\<rfloor>) new"
proof -
  obtain new where new: "obstacles (afterSpawn rand delta s) = obstacles s @ new"
      "newborn (spawned s) (nat \<lfloor>toDouble (spawnAcc s + delta) / spawnDelay s\<rfloor>) new"
    using afterSpawn_obstacles by blast
  have "map still (obstacles (frameEnd rand delta s)) =
        map still (filter (\<lambda>obj. \<not> ox obj < - 60) (obstacles s)) @ map still new"
    by (simp add: frameEnd_def Let_def sweep_obstacles new(1) newborn_kept[OF new(2)])
  with new(2) show ?thesis by blast
qed

subsection \<open>fetchPriceOnce\<close>

lemma fetch_parsed:
  "lastPrice (fetchPriceOnce (Json ok (Some p)) s) =
     (if curPrice s \<noteq> None then curPrice s else lastPrice s)"
  "curPrice (fetchPriceOnce (Json ok (Some p)) s) = Some p"
  "priceTrend (fetchPriceOnce (Json ok (Some p)) s) =
     classify (if curPrice s \<noteq> None then curPrice s else lastPrice s) p"
  "priceText (fetchPriceOnce (Json ok (Some p)) s) = PriceShown p"
  by (auto simp: fetchPriceOnce_def Let_def split: option.splits)

lemma price_trace_spec:
  "lastPrice s = None \<or> curPrice s \<noteq> None \<Longrightarrow>
   price_trace ok ps s = spec_trace (curPrice s) ps"
proof (induction ps arbitrary: s)
  case Nil
  show ?case by simp
next
  case (Cons p ps)
  let ?s = "fetchPriceOnce (Json ok (Some p)) s"
  have "price_trace ok ps ?s = spec_trace (curPrice ?s) ps"
    by (rule Cons.IH) (simp add: fetch_parsed)
  then show ?case using Cons.prems by (auto simp: Let_def fetch_parsed)
qed

subsection \<open>The other methods\<close>

lemma tryJump_same [simp]:
  "obstacles (tryJump s) = obstacles s"
  "score (tryJump s) = score s"
  "scoreText (tryJump s) = scoreText s"
  "speed (tryJump s) = speed s"
  "spawnDelay (tryJump s) = spawnDelay s"
  "spawnAcc (tryJump s) = spawnAcc s"
  "priceText (tryJump s) = priceText s"
  "priceTrend (tryJump s) = priceTrend s"
  "lastPrice (tryJump s) = lastPrice s"
  "curPrice (tryJump s) = curPrice s"
  "priceAcc (tryJump s) = priceAcc s"
  "gameOverShown (tryJump s) = gameOverShown s"
  "overlays (tryJump s) = overlays s"
  "fetchCalls (tryJump s) = fetchCalls s"
  "bgColor (tryJump s) = bgColor s"
  "groundY (tryJump s) = groundY s"
  "player_y (tryJump s) = player_y s"
  "spawned (tryJump s) = spawned s"
  by (simp_all add: tryJump_def Let_def)

lemma fetchPriceOnce_same [simp]:
  "obstacles (fetchPriceOnce r s) = obstacles s"
  "score (fetchPriceOnce r s) = score s"
  "scoreText (fetchPriceOnce r s) = scoreText s"
  "speed (fetchPriceOnce r s) = speed s"
  "spawnDelay (fetchPriceOnce r s) = spawnDelay s"
  "spawnAcc (fetchPriceOnce r s) = spawnAcc s"
  "priceAcc (fetchPriceOnce r s) = priceAcc s"
  "gameOverShown (fetchPriceOnce r s) = gameOverShown s"
  "overlays (fetchPriceOnce r s) = overlays s"
  "fetchCalls (fetchPriceOnce r s) = fetchCalls s"
  "groundY (fetchPriceOnce r s) = groundY s"
  "player_y (fetchPriceOnce r s) = player_y s"
  "player_body (fetchPriceOnce r s) = player_body s"
  "spawned (fetchPriceOnce r s) = spawned s"
  by (simp_all add: fetchPriceOnce_def Let_def split: fetch_outcome.splits option.splits)

lemma create_fields [simp]:
  "obstacles (create s) = []"
  "score (create s) = 0"
  "scoreText (create s) = 0"
  "speed (create s) = 180"
  "spawnDelay (create s) = 1200"
  "spawnAcc (create s) = 0"
  "priceText (create s) = Placeholder"
  "priceTrend (create s) = priceTrend s"
  "lastPrice (create s) = lastPrice s"
  "curPrice (create s) = curPrice s"
  "priceAcc (create s) = PRICE_INTERVAL_MS"
  "gameOverShown (create s) = False"
  "overlays (create s) = 0"
  "fetchCalls (create s) = fetchCalls s"
  "bgColor (create s) = BG_BEAR"
  "spawned (create s) = spawned s"
  by (simp_all add: create_def Let_def)

lemma create_geometry [simp]:
  "groundY (create s) = 382"
  "player_y (create s) = 364"
  "player_body (create s) = \<lparr> body_y = 346, body_height = 36, velocity_y = 0,
                              blocked_down = False, touching_down = False \<rparr>"
  by (simp_all add: create_def Let_def DESIGN_HEIGHT_def)

lemma fresh_fields [simp]:
  "lastPrice fresh = None" "curPrice fresh = None" "priceTrend fresh = Flat"
  "spawned fresh = 0" "fetchCalls fresh = 0"
  by (simp_all add: fresh_def)

lemma moveTo_maps [simp]:
  "map ident (moveTo xs objs) = map ident objs"
  "map scored (moveTo xs objs) = map scored objs"
  "map pair_no (moveTo xs objs) = map pair_no objs"
  "map ovx (moveTo xs objs) = map ovx objs"
  "map ovy (moveTo xs objs) = map ovy objs"
  "length (moveTo xs objs) = length objs"
  by (induction xs objs rule: moveTo.induct) (simp_all add: ident_def)

subsection \<open>The ramp\<close>

lemma ramp_ok_cong:
  "speed s' = speed s \<Longrightarrow> spawnDelay s' = spawnDelay s \<Longrightarrow> score s' = score s \<Longrightarrow>
   ramp_ok s' = ramp_ok s"
  by (simp add: ramp_ok_def)

lemma ramp_ok_bounds:
  "ramp_ok s \<Longrightarrow> 180 \<le> speed s \<and> speed s \<le> 420 \<and> 885 \<le> spawnDelay s \<and> spawnDelay s \<le> 1200"
  by (auto simp: ramp_ok_def)

lemma ramp_ok_scoreRamp: "ramp_ok s \<Longrightarrow> ramp_ok (scoreRamp s)"
  by (auto simp: ramp_ok_def)

lemma ramp_ok_visit: "ramp_ok s \<Longrightarrow> ramp_ok (visit obj s)"
  by (auto simp: visit_def ramp_ok_scoreRamp intro: ramp_ok_cong[THEN iffD2])

lemma ramp_ok_sweep: "ramp_ok s \<Longrightarrow> ramp_ok (sweep objs s)"
  by (induction objs arbitrary: s) (simp_all add: ramp_ok_visit)

lemma ramp_ok_create: "ramp_ok (create s)"
  by (simp add: ramp_ok_def)

lemma ramp_ok_fresh: "ramp_ok fresh"
  by (simp add: ramp_ok_def fresh_def)

lemma ramp_ok_frameEnd: "ramp_ok s \<Longrightarrow> ramp_ok (frameEnd rand delta s)"
proof -
  assume r: "ramp_ok s"
  let ?s3 = "afterSpawn rand delta s"
  have "ramp_ok (?s3\<lparr> obstacles := [] \<rparr>)"
    using r by (simp add: ramp_ok_def)
  then have "ramp_ok (sweep (obstacles ?s3) (?s3\<lparr> obstacles := [] \<rparr>))"
    by (rule ramp_ok_sweep)
  then show ?thesis
    by (auto simp: frameEnd_def Let_def intro: ramp_ok_cong[THEN iffD2])
qed

lemma step_Some:
  "0 < spawnDelay s \<Longrightarrow>
   step rand e s =
     Some (case e of
             Frame delta \<Rightarrow> if gameOverShown s then s else frameEnd rand delta s
           | Jump \<Rightarrow> tryJump s
           | Overlap \<Rightarrow> onGameOver s
           | Restart \<Rightarrow> if gameOverShown s then create s else s
           | FetchDone r \<Rightarrow> fetchPriceOnce r s
           | Physics b y xs \<Rightarrow>
               s\<lparr> player_body := b, player_y := y, obstacles := moveTo xs (obstacles s) \<rparr>)"
  by (cases e) (simp_all add: update_over update_play)

lemma ramp_ok_step: "ramp_ok s \<Longrightarrow> step rand e s = Some s' \<Longrightarrow> ramp_ok s'"
proof -
  assume r: "ramp_ok s" and st: "step rand e s = Some s'"
  have pos: "0 < spawnDelay s" using ramp_ok_bounds[OF r] by simp
  show ?thesis
    using st r unfolding step_Some[OF pos]
    by (cases e)
       (auto simp: ramp_ok_frameEnd ramp_ok_create intro: ramp_ok_cong[THEN iffD2]
             split: if_splits)
qed

lemma step_total: "ramp_ok s \<Longrightarrow> \<exists>s'. step rand e s = Some s'"
  using ramp_ok_bounds[of s] step_Some[of s rand e] by simp

lemma run_total: "ramp_ok s \<Longrightarrow> \<exists>s'. run rand es s = Some s' \<and> ramp_ok s'"
proof (induction es arbitrary: s)
  case Nil
  then show ?case by simp
next
  case (Cons e es)
  obtain s1 where s1: "step rand e s = Some s1" using step_total[OF Cons.prems] by blast
  then show ?case using Cons.IH[OF ramp_ok_step[OF Cons.prems s1]] by simp
qed

lemma run_invariant:
  assumes stp: "\<And>e s s'. I s \<Longrightarrow> ramp_ok s \<Longrightarrow> step rand e s = Some s' \<Longrightarrow> I s'"
    and "I s" and "ramp_ok s" and "run rand es s = Some s'"
  shows "I s'"
  using assms(2-)
proof (induction es arbitrary: s)
  case Nil
  then show ?case by simp
next
  case (Cons e es)
  then obtain s1 where s1: "step rand e s = Some s1" and r: "run rand es s1 = Some s'"
    by (auto split: option.splits)
  show ?case
    by (rule Cons.IH[OF stp[OF Cons.prems(1,2) s1] ramp_ok_step[OF Cons.prems(2) s1] r])
qed

lemma run_append:
  "run rand (es @ fs) s = (case run rand es s of None \<Rightarrow> None | Some s' \<Rightarrow> run rand fs s')"
  by (induction es arbitrary: s) (simp_all split: option.splits)

text \<open>The equations that evaluate a concrete run.\<close>

lemmas eval_defs =
  toDouble_numeral groupDefaults_def update_def Let_def clampToGround_def pollPrice_def spawnLoop.simps
  spawnObstacle_def visit_def scoreRamp_def create_def fresh_def sampleDraws_def
  restingBody_def DESIGN_WIDTH_def DESIGN_HEIGHT_def PRICE_INTERVAL_MS_def onGameOver_def
  tryJump_def fetchPriceOnce_def jumpVelocity_def BG_BULL_def BG_BEAR_def
  CANDLE_BULL_def CANDLE_BEAR_def

subsection \<open>Closed forms of the ramp\<close>

lemma funpow_scoreRamp_score: "score ((scoreRamp ^^ m) s) = score s + m"
  by (induction m) simp_all

lemma funpow_scoreRamp_speed:
  "speed ((scoreRamp ^^ m) s) = (if m = 0 then speed s else min (speed s + 8 * real m) 420)"
  by (induction m) (auto simp: min_def)

lemma funpow_scoreRamp_spawnDelay:
  "spawnDelay ((scoreRamp ^^ m) s) =
     (if m = 0 then spawnDelay s else max (spawnDelay s - 10 * real m) 885)"
  by (induction m) (auto simp: max_def)

lemma sweep_speed:
  "speed (sweep objs s) =
     (if filter counts objs = [] then speed s
      else min (speed s + 8 * real (length (filter counts objs))) 420)"
proof (induction objs arbitrary: s)
  case Nil
  show ?case by simp
next
  case (Cons obj objs)
  show ?case
    by (simp add: Cons.IH visit_def counts_def min_def)
qed

lemma sweep_spawnDelay:
  "spawnDelay (sweep objs s) =
     (if filter counts objs = [] then spawnDelay s
      else max (spawnDelay s - 10 * real (length (filter counts objs))) 885)"
proof (induction objs arbitrary: s)
  case Nil
  show ?case by simp
next
  case (Cons obj objs)
  show ?case
    by (simp add: Cons.IH visit_def counts_def max_def)
qed

lemma sweep_as_events:
  "speed (sweep objs s) = speed ((scoreRamp ^^ length (filter counts objs)) s)"
  "spawnDelay (sweep objs s) = spawnDelay ((scoreRamp ^^ length (filter counts objs)) s)"
  by (simp_all add: sweep_speed sweep_spawnDelay funpow_scoreRamp_speed
        funpow_scoreRamp_spawnDelay)

lemma frameEnd_as_events:
  "speed (frameEnd rand delta s) =
     speed ((scoreRamp ^^ length (filter counts (obstacles s))) s)"
  "spawnDelay (frameEnd rand delta s) =
     spawnDelay ((scoreRamp ^^ length (filter counts (obstacles s))) s)"
proof -
  obtain new where new: "obstacles (afterSpawn rand delta s) = obstacles s @ new"
      "newborn (spawned s) (nat \<lfloor>toDouble (spawnAcc s + delta) / spawnDelay s\<rfloor>) new"
    using afterSpawn_obstacles by blast
  have c: "filter counts (obstacles (afterSpawn rand delta s)) = filter counts (obstacles s)"
    by (simp add: new(1) newborn_not_counts[OF new(2)])
  show "speed (frameEnd rand delta s) =
     speed ((scoreRamp ^^ length (filter counts (obstacles s))) s)"
    by (simp add: frameEnd_def Let_def sweep_speed c funpow_scoreRamp_speed)
  show "spawnDelay (frameEnd rand delta s) =
     spawnDelay ((scoreRamp ^^ length (filter counts (obstacles s))) s)"
    by (simp add: frameEnd_def Let_def sweep_spawnDelay c funpow_scoreRamp_spawnDelay)
qed

subsection \<open>The ramp within a session\<close>

lemma step_score_mono:
  "ramp_ok s \<Longrightarrow> e \<noteq> Restart \<Longrightarrow> step rand e s = Some s' \<Longrightarrow> score s \<le> score s'"
proof -
  assume r: "ramp_ok s" and e: "e \<noteq> Restart" and st: "step rand e s = Some s'"
  have pos: "0 < spawnDelay s" using ramp_ok_bounds[OF r] by simp
  show ?thesis
    using st e unfolding step_Some[OF pos]
    by (cases e) (auto simp: frameEnd_score split: if_splits)
qed

lemma run_score_mono:
  "ramp_ok s \<Longrightarrow> Restart \<notin> set es \<Longrightarrow> run rand es s = Some s' \<Longrightarrow> score s \<le> score s'"
proof (induction es arbitrary: s)
  case Nil
  then show ?case by simp
next
  case (Cons e es)
  then obtain s1 where s1: "step rand e s = Some s1" and r: "run rand es s1 = Some s'"
    by (auto split: option.splits)
  have "score s \<le> score s1" using step_score_mono[OF Cons.prems(1) _ s1] Cons.prems(2) by auto
  moreover have "score s1 \<le> score s'"
    using Cons.IH[OF ramp_ok_step[OF Cons.prems(1) s1] _ r] Cons.prems(2) by auto
  ultimately show ?case by simp
qed

lemma ramp_ok_mono:
  "ramp_ok s \<Longrightarrow> ramp_ok s' \<Longrightarrow> score s \<le> score s' \<Longrightarrow>
   speed s \<le> speed s' \<and> spawnDelay s' \<le> spawnDelay s"
  by (auto simp: ramp_ok_def min_def max_def)

lemma session_mono:
  assumes "run rand es0 (create fresh) = Some s1" and "Restart \<notin> set es"
    and "run rand es s1 = Some s2"
  shows "speed s1 \<le> speed s2 \<and> spawnDelay s2 \<le> spawnDelay s1"
proof -
  have r1: "ramp_ok s1" using run_total[OF ramp_ok_create, of rand es0 fresh] assms(1) by simp
  have r2: "ramp_ok s2" using run_total[OF r1, of rand es] assms(3) by simp
  show ?thesis by (rule ramp_ok_mono[OF r1 r2 run_score_mono[OF r1 assms(2,3)]])
qed

subsection \<open>The price fields along a run\<close>

lemma step_prices:
  assumes "ramp_ok s" and "step rand e s = Some s'"
    and "price_ok s" and "curPrice s \<noteq> None \<longrightarrow> 1 \<le> n" and "lastPrice s \<noteq> None \<longrightarrow> 2 \<le> n"
  shows "price_ok s' \<and> (curPrice s' \<noteq> None \<longrightarrow> 1 \<le> n + (if parsed e then 1 else 0)) \<and>
         (lastPrice s' \<noteq> None \<longrightarrow> 2 \<le> n + (if parsed e then 1 else (0::nat)))"
proof -
  have pos: "0 < spawnDelay s" using ramp_ok_bounds[OF assms(1)] by simp
  show ?thesis
  proof (cases e)
    case (FetchDone r)
    then have s': "s' = fetchPriceOnce r s" using assms(2) by simp
    show ?thesis
      using assms(3-) unfolding s' FetchDone
      by (cases r) (auto simp: price_ok_def fetchPriceOnce_def Let_def split: option.splits)
  qed (use assms(2-) in \<open>unfold step_Some[OF pos], auto simp: price_ok_def split: if_splits\<close>)
qed

lemma run_prices:
  "run rand es s = Some s' \<Longrightarrow> ramp_ok s \<Longrightarrow> price_ok s \<Longrightarrow>
   (curPrice s \<noteq> None \<longrightarrow> 1 \<le> n) \<Longrightarrow> (lastPrice s \<noteq> None \<longrightarrow> 2 \<le> n) \<Longrightarrow>
   price_ok s' \<and> (curPrice s' \<noteq> None \<longrightarrow> 1 \<le> n + parses es) \<and>
   (lastPrice s' \<noteq> None \<longrightarrow> 2 \<le> n + parses es)"
proof (induction es arbitrary: s n)
  case Nil
  then show ?case by (simp add: parses_def)
next
  case (Cons e es)
  then obtain s1 where s1: "step rand e s = Some s1" and r: "run rand es s1 = Some s'"
    by (auto split: option.splits)
  let ?n = "n + (if parsed e then 1 else 0)"
  have st: "price_ok s1 \<and> (curPrice s1 \<noteq> None \<longrightarrow> 1 \<le> ?n) \<and> (lastPrice s1 \<noteq> None \<longrightarrow> 2 \<le> ?n)"
    by (rule step_prices[OF Cons.prems(2) s1 Cons.prems(3-)])
  have "price_ok s' \<and> (curPrice s' \<noteq> None \<longrightarrow> 1 \<le> ?n + parses es) \<and>
        (lastPrice s' \<noteq> None \<longrightarrow> 2 \<le> ?n + parses es)"
    using Cons.IH[OF r ramp_ok_step[OF Cons.prems(2) s1], of ?n] st by blast
  moreover have "?n + parses es = n + parses (e # es)" by (simp add: parses_def)
  ultimately show ?case by simp
qed

subsection \<open>The spawn accumulator\<close>

lemma floor_rest:
  fixes a d :: real
  assumes "0 < d"
  shows "0 \<le> a - real_of_int \<lfloor>a / d\<rfloor> * d" and "a - real_of_int \<lfloor>a / d\<rfloor> * d < d"
proof -
  have "real_of_int \<lfloor>a / d\<rfloor> * d \<le> (a / d) * d"
    using assms by (intro mult_right_mono) simp_all
  then show "0 \<le> a - real_of_int \<lfloor>a / d\<rfloor> * d" using assms by simp
  have "a / d < real_of_int \<lfloor>a / d\<rfloor> + 1" by linarith
  then have "(a / d) * d < (real_of_int \<lfloor>a / d\<rfloor> + 1) * d"
    using assms by (intro mult_strict_right_mono)
  then show "a - real_of_int \<lfloor>a / d\<rfloor> * d < d" using assms by (simp add: algebra_simps)
qed

lemma frameEnd_length:
  "length (obstacles (frameEnd rand delta s)) =
     length (filter (\<lambda>obj. \<not> ox obj < - 60) (obstacles s)) +
     2 * nat \<lfloor>toDouble (spawnAcc s + delta) / spawnDelay s\<rfloor>"
proof -
  obtain new where new:
      "map still (obstacles (frameEnd rand delta s)) =
         map still (filter (\<lambda>obj. \<not> ox obj < - 60) (obstacles s)) @ map still new"
      "newborn (spawned s) (nat \<lfloor>toDouble (spawnAcc s + delta) / spawnDelay s\<rfloor>) new"
    using frameEnd_obstacles by blast
  have "length (map still (obstacles (frameEnd rand delta s))) =
        length (filter (\<lambda>obj. \<not> ox obj < - 60) (obstacles s)) + length new"
    unfolding new(1) by simp
  then show ?thesis using new(2) by (simp add: newborn_def)
qed

lemma ramp_ok_Ints: "ramp_ok s \<Longrightarrow> spawnDelay s \<in> \<int>"
proof -
  assume "ramp_ok s"
  then have d: "spawnDelay s = max (1200 - 10 * real (score s)) 885" by (simp add: ramp_ok_def)
  have "1200 - 10 * real (score s) \<in> \<int>" by simp
  moreover have "(885::real) \<in> \<int>" by simp
  ultimately show ?thesis unfolding d max_def by presburger
qed

lemma spawnAcc_step:
  assumes r: "ramp_ok s" and a: "0 \<le> spawnAcc s" "spawnAcc s < 1200" and t: "timed e"
    and st: "step rand e s = Some s'"
  shows "0 \<le> spawnAcc s' \<and> spawnAcc s' < 1200"
proof -
  have pos: "0 < spawnDelay s" and top: "spawnDelay s \<le> 1200"
    using ramp_ok_bounds[OF r] by simp_all
  show ?thesis
  proof (cases e)
    case (Frame delta)
    show ?thesis
    proof (cases "gameOverShown s")
      case True
      then show ?thesis using st a Frame by (simp add: update_over)
    next
      case False
      let ?a = "toDouble (spawnAcc s + delta)"
      have s': "s' = frameEnd rand delta s" using st Frame pos False by (simp add: update_play)
      have "0 \<le> ?a" using a t Frame by (intro toDouble_nonneg) simp
      then have "0 \<le> ?a / spawnDelay s" using pos by simp
      then have "0 \<le> \<lfloor>?a / spawnDelay s\<rfloor>" by simp
      then have n: "real (nat \<lfloor>?a / spawnDelay s\<rfloor>) = real_of_int \<lfloor>?a / spawnDelay s\<rfloor>"
        by simp
      show ?thesis unfolding s' using floor_rest[OF pos, of ?a] top by (simp add: n)
    qed
  qed (use st a in \<open>auto split: if_splits\<close>)
qed

lemma reachable_spawnAcc:
  assumes "run rand es (create s0) = Some s" and "\<forall>e \<in> set es. timed e"
  shows "0 \<le> spawnAcc s \<and> spawnAcc s < 1200 \<and> 0 < spawnDelay s \<and> spawnDelay s \<in> \<int>"
proof -
  have gen: "\<And>t. ramp_ok t \<Longrightarrow> 0 \<le> spawnAcc t \<and> spawnAcc t < 1200 \<Longrightarrow>
      \<forall>e \<in> set es. timed e \<Longrightarrow> run rand es t = Some s \<Longrightarrow>
      (0 \<le> spawnAcc s \<and> spawnAcc s < 1200) \<and> ramp_ok s"
  proof (induction es)
    case Nil
    then show ?case by simp
  next
    case (Cons e es)
    from Cons.prems(4) obtain t1 where t1: "step rand e t = Some t1"
        and r: "run rand es t1 = Some s"
      by (auto split: option.splits)
    have "0 \<le> spawnAcc t1 \<and> spawnAcc t1 < 1200"
      using spawnAcc_step[OF Cons.prems(1) _ _ _ t1] Cons.prems(2,3) by simp
    then show ?case
      using Cons.IH[OF ramp_ok_step[OF Cons.prems(1) t1] _ _ r] Cons.prems(3) by simp
  qed
  have "(0 \<le> spawnAcc s \<and> spawnAcc s < 1200) \<and> ramp_ok s"
    using gen[OF ramp_ok_create _ assms(2) assms(1)] by simp
  then show ?thesis using ramp_ok_bounds[of s] ramp_ok_Ints[of s] by simp
qed

text \<open>The subtractions of the spawn loop are exact on doubles below \<open>2 ^ 53\<close>.\<close>

lemma spawn_subtraction_exact:
  fixes a d :: real
  assumes grid: "onGrid a" and small: "a < 2 ^ 53" and int: "d \<in> \<int>" and pos: "0 < d"
    and j: "real (Suc j) * d \<le> a"
  shows "toDouble (a - real j * d - d) = a - real j * d - d"
proof -
  let ?m = "real (Suc j) * d"
  have m0: "0 \<le> ?m" using pos by simp
  then have a0: "0 \<le> a" using j by linarith
  have "?m \<in> \<int>" using int by (intro Ints_mult) simp_all
  then have "?m * 2 ^ 1074 / 2 ^ quantumExp a \<in> \<int>"
    using small a0 by (intro int_on_small_grid) simp_all
  moreover have "\<bar>a - ?m\<bar> \<le> \<bar>a\<bar>" using m0 j by simp
  ultimately have "onGrid (a - ?m)" using grid by (intro onGrid_diff)
  then have t: "toDouble (a - ?m) = a - ?m" by (rule onGrid_toDouble)
  have e: "a - ?m = a - real j * d - d" by (simp add: algebra_simps)
  show ?thesis using t unfolding e .
qed

subsection \<open>The identities of the obstacles\<close>

lemma still_maps:
  assumes "map still xs = map still ys"
  shows "map ident xs = map ident ys" and "map pair_no xs = map pair_no ys"
    and "map scored xs = map scored ys" and "map ox xs = map ox ys"
proof -
  have "map ident xs = map ident (map still xs)" by simp
  also have "\<dots> = map ident (map still ys)" by (simp only: assms)
  finally show "map ident xs = map ident ys" by simp
  have "map pair_no xs = map pair_no (map still xs)" by simp
  also have "\<dots> = map pair_no (map still ys)" by (simp only: assms)
  finally show "map pair_no xs = map pair_no ys" by simp
  have "map scored xs = map scored (map still xs)" by simp
  also have "\<dots> = map scored (map still ys)" by (simp only: assms)
  finally show "map scored xs = map scored ys" by simp
  have "map ox xs = map ox (map still xs)" by simp
  also have "\<dots> = map ox (map still ys)" by (simp only: assms)
  finally show "map ox xs = map ox ys" by simp
qed

lemma newborn_ident:
  "newborn k n new \<Longrightarrow> i \<in> set (map ident new) \<Longrightarrow> k \<le> fst i \<and> fst i < k + n"
  by (auto simp: newborn_def ident_def)

lemma distinct_filter_disjoint:
  assumes "distinct (map f xs)" and "\<And>x. P x \<Longrightarrow> \<not> Q x"
  shows "set (map f (filter P xs)) \<inter> set (map f (filter Q xs)) = {}"
proof -
  have inj: "inj_on f (set xs)" using assms(1) by (simp add: distinct_map)
  show ?thesis using assms(2) inj by (auto simp: inj_on_def)
qed

lemma frameEnd_idents:
  "\<exists>new. map ident (obstacles (frameEnd rand delta s)) =
           map ident (filter (\<lambda>obj. \<not> ox obj < - 60) (obstacles s)) @ map ident new \<and>
         map pair_no (obstacles (frameEnd rand delta s)) =
           map pair_no (filter (\<lambda>obj. \<not> ox obj < - 60) (obstacles s)) @ map pair_no new \<and>
         map scored (obstacles (frameEnd rand delta s)) =
           map scored (filter (\<lambda>obj. \<not> ox obj < - 60) (obstacles s)) @ map scored new \<and>
         map ox (obstacles (frameEnd rand delta s)) =
           map ox (filter (\<lambda>obj. \<not> ox obj < - 60) (obstacles s)) @ map ox new \<and>
         newborn (spawned s) (nat \<lfloor>toDouble (spawnAcc s + delta) / spawnDelay s\<rfloor>) new"
proof -
  obtain new where new:
      "map still (obstacles (frameEnd rand delta s)) =
         map still (filter (\<lambda>obj. \<not> ox obj < - 60) (obstacles s)) @ map still new"
      "newborn (spawned s) (nat \<lfloor>toDouble (spawnAcc s + delta) / spawnDelay s\<rfloor>) new"
    using frameEnd_obstacles by blast
  have m: "map still (obstacles (frameEnd rand delta s)) =
      map still (filter (\<lambda>obj. \<not> ox obj < - 60) (obstacles s) @ new)"
    using new(1) by simp
  show ?thesis
    using still_maps[OF m] new(2) by (intro exI[of _ new]) simp
qed

lemma group_ok_frameEnd:
  assumes "group_ok s"
  shows "group_ok (frameEnd rand delta s)"
    and "future (frameEnd rand delta s) \<subseteq> future s - set (map ident (filter counts (obstacles s)))"
proof -
  let ?keep = "filter (\<lambda>obj. \<not> ox obj < - 60) (obstacles s)"
  let ?n = "nat \<lfloor>toDouble (spawnAcc s + delta) / spawnDelay s\<rfloor>"
  obtain new where new:
      "map ident (obstacles (frameEnd rand delta s)) = map ident ?keep @ map ident new"
      "map pair_no (obstacles (frameEnd rand delta s)) = map pair_no ?keep @ map pair_no new"
      "map scored (obstacles (frameEnd rand delta s)) = map scored ?keep @ map scored new"
      "newborn (spawned s) ?n new"
    using frameEnd_idents[of rand delta s] by blast
  have old: "distinct (map ident (obstacles s))"
      "\<forall>p \<in> set (map pair_no (obstacles s)). p < spawned s"
      "\<forall>b \<in> set (map scored (obstacles s)). \<not> b"
    using assms by (simp_all add: group_ok_def)
  have dk: "distinct (map ident ?keep)" using old(1) by (rule distinct_map_filter)
  have dn: "distinct (map ident new)" using new(4) by (simp add: newborn_def)
  have fresh_id: "\<And>i. i \<in> set (map ident new) \<Longrightarrow> spawned s \<le> fst i \<and> fst i < spawned s + ?n"
    using newborn_ident[OF new(4)] by blast
  have old_id: "\<And>i. i \<in> set (map ident (obstacles s)) \<Longrightarrow> fst i < spawned s"
    using old(2) by (auto simp: ident_def)
  have keep_sub: "set (map ident ?keep) \<subseteq> set (map ident (obstacles s))" by auto
  have disj: "set (map ident ?keep) \<inter> set (map ident new) = {}"
  proof (rule ccontr)
    assume "set (map ident ?keep) \<inter> set (map ident new) \<noteq> {}"
    then obtain i where i: "i \<in> set (map ident ?keep)" "i \<in> set (map ident new)" by blast
    have "fst i < spawned s" using old_id keep_sub i(1) by blast
    moreover have "spawned s \<le> fst i" using fresh_id[OF i(2)] by simp
    ultimately show False by simp
  qed
  have d: "distinct (map ident ?keep @ map ident new)"
    using dk dn disj by simp
  have p1: "\<forall>p \<in> set (map pair_no ?keep). p < spawned s + ?n"
    using old(2) by auto
  have p2: "\<forall>p \<in> set (map pair_no new). p < spawned s + ?n"
    using new(4) by (simp add: newborn_def)
  have s1: "\<forall>b \<in> set (map scored ?keep). \<not> b"
    using old(3) by auto
  have s2: "\<forall>b \<in> set (map scored new). \<not> b"
    using new(4) by (simp add: newborn_def)
  have sp: "spawned (frameEnd rand delta s) = spawned s + ?n" by simp
  show "group_ok (frameEnd rand delta s)"
    unfolding group_ok_def new(1,2,3) sp
    using d p1 p2 s1 s2 by (simp add: ball_Un)
  have cut: "set (map ident ?keep) \<inter> set (map ident (filter counts (obstacles s))) = {}"
    by (rule distinct_filter_disjoint[OF old(1)]) (simp add: counts_def)
  have counted_old: "\<And>i. i \<in> set (map ident (filter counts (obstacles s))) \<Longrightarrow> fst i < spawned s"
  proof -
    fix i assume "i \<in> set (map ident (filter counts (obstacles s)))"
    then have "i \<in> set (map ident (obstacles s))" by auto
    then show "fst i < spawned s" by (rule old_id)
  qed
  show "future (frameEnd rand delta s)
          \<subseteq> future s - set (map ident (filter counts (obstacles s)))"
  proof
    fix i assume "i \<in> future (frameEnd rand delta s)"
    then have "i \<in> set (map ident ?keep) \<or> i \<in> set (map ident new) \<or> spawned s + ?n \<le> fst i"
      unfolding future_def new(1) sp by simp
    then consider "i \<in> set (map ident ?keep)" | "i \<in> set (map ident new)"
      | "spawned s + ?n \<le> fst i"
      by blast
    then show "i \<in> future s - set (map ident (filter counts (obstacles s)))"
    proof cases
      case 1
      have "i \<in> set (map ident (obstacles s))" using 1 keep_sub by blast
      moreover have "i \<notin> set (map ident (filter counts (obstacles s)))" using 1 cut by blast
      ultimately show ?thesis unfolding future_def by blast
    next
      case 2
      then have a: "spawned s \<le> fst i" using fresh_id by blast
      then have "i \<notin> set (map ident (filter counts (obstacles s)))"
        using counted_old[of i] by auto
      then show ?thesis using a unfolding future_def by simp
    next
      case 3
      then have a: "spawned s \<le> fst i" by simp
      then have "i \<notin> set (map ident (filter counts (obstacles s)))"
        using counted_old[of i] by auto
      then show ?thesis using a unfolding future_def by simp
    qed
  qed
qed

lemma group_future_cong:
  assumes "map ident (obstacles s') = map ident (obstacles s)"
    and "map pair_no (obstacles s') = map pair_no (obstacles s)"
    and "map scored (obstacles s') = map scored (obstacles s)"
    and "spawned s' = spawned s"
  shows "group_ok s' = group_ok s" and "future s' = future s"
  by (simp_all only: group_ok_def future_def assms)

lemma group_ok_step:
  assumes r: "ramp_ok s" and g: "group_ok s" and st: "step rand e s = Some s'"
  shows "group_ok s' \<and> future s' \<subseteq> future s - set (frame_scored e s)"
proof -
  have pos: "0 < spawnDelay s" using ramp_ok_bounds[OF r] by simp
  show ?thesis
  proof (cases e)
    case (Frame delta)
    show ?thesis
    proof (cases "gameOverShown s")
      case True
      then have "s' = s" using st Frame by (simp add: update_over)
      then show ?thesis using g True Frame by simp
    next
      case False
      then have "s' = frameEnd rand delta s" using st Frame pos by (simp add: update_play)
      then show ?thesis using group_ok_frameEnd[OF g, of rand delta] False Frame by simp
    qed
  next
    case Jump
    then have s': "s' = tryJump s" using st by simp
    show ?thesis
      using g group_future_cong[of s' s] unfolding s' Jump by simp
  next
    case Overlap
    then have s': "s' = onGameOver s" using st by simp
    have m: "map still (obstacles (onGameOver s)) = map still (obstacles s)" by simp
    show ?thesis
      using g group_future_cong[of s' s] still_maps[OF m] unfolding s' Overlap by simp
  next
    case Restart
    then have s': "s' = (if gameOverShown s then create s else s)" using st by simp
    show ?thesis
    proof (cases "gameOverShown s")
      case True
      then show ?thesis unfolding s' Restart by (auto simp: group_ok_def future_def)
    next
      case False
      then show ?thesis using g unfolding s' Restart by simp
    qed
  next
    case (FetchDone x)
    then have s': "s' = fetchPriceOnce x s" using st by simp
    show ?thesis
      using g group_future_cong[of s' s] unfolding s' FetchDone by simp
  next
    case (Physics b y xs)
    then have s': "s' = s\<lparr> player_body := b, player_y := y,
        obstacles := moveTo xs (obstacles s) \<rparr>" using st by simp
    show ?thesis
      using g group_future_cong[of s' s] unfolding s' Physics by simp
  qed
qed

lemma step_score_log:
  assumes r: "ramp_ok s" and e: "e \<noteq> Restart" and st: "step rand e s = Some s'"
  shows "score s' = score s + length (frame_scored e s)"
proof -
  have pos: "0 < spawnDelay s" using ramp_ok_bounds[OF r] by simp
  show ?thesis
    using st e unfolding step_Some[OF pos]
    by (cases e) (auto simp: frameEnd_score split: if_splits)
qed

lemma scored_log_distinct:
  "ramp_ok s \<Longrightarrow> group_ok s \<Longrightarrow>
   set (scored_log rand es s) \<subseteq> future s \<and> distinct (scored_log rand es s)"
proof (induction es arbitrary: s)
  case Nil
  show ?case by simp
next
  case (Cons e es)
  obtain s1 where s1: "step rand e s = Some s1" using step_total[OF Cons.prems(1)] by blast
  have g1: "group_ok s1" and f1: "future s1 \<subseteq> future s - set (frame_scored e s)"
    using group_ok_step[OF Cons.prems s1] by simp_all
  have ih: "set (scored_log rand es s1) \<subseteq> future s1" "distinct (scored_log rand es s1)"
    using Cons.IH[OF ramp_ok_step[OF Cons.prems(1) s1] g1] by simp_all
  have now_sub: "set (frame_scored e s) \<subseteq> future s"
    by (cases e) (auto simp: future_def)
  have now_dist: "distinct (frame_scored e s)"
  proof (cases e)
    case (Frame delta)
    have "distinct (map ident (obstacles s))" using Cons.prems(2) by (simp add: group_ok_def)
    then have "distinct (map ident (filter counts (obstacles s)))" by (rule distinct_map_filter)
    then show ?thesis using Frame by simp
  qed simp_all
  have log: "scored_log rand (e # es) s = frame_scored e s @ scored_log rand es s1"
    using s1 by simp
  have "set (frame_scored e s) \<inter> set (scored_log rand es s1) = {}"
    using ih(1) f1 by blast
  then have "distinct (frame_scored e s @ scored_log rand es s1)"
    using now_dist ih(2) by simp
  moreover have "set (frame_scored e s @ scored_log rand es s1) \<subseteq> future s"
    using now_sub ih(1) f1 by auto
  ultimately show ?case unfolding log by simp
qed

lemma run_score_log:
  "ramp_ok s \<Longrightarrow> Restart \<notin> set es \<Longrightarrow> run rand es s = Some s' \<Longrightarrow>
   score s' = score s + length (scored_log rand es s)"
proof (induction es arbitrary: s)
  case Nil
  then show ?case by simp
next
  case (Cons e es)
  then obtain s1 where s1: "step rand e s = Some s1" and r: "run rand es s1 = Some s'"
    by (auto split: option.splits)
  have e: "e \<noteq> Restart" and es: "Restart \<notin> set es" using Cons.prems(2) by auto
  have "score s1 = score s + length (frame_scored e s)"
    by (rule step_score_log[OF Cons.prems(1) e s1])
  moreover have "score s' = score s1 + length (scored_log rand es s1)"
    by (rule Cons.IH[OF ramp_ok_step[OF Cons.prems(1) s1] es r])
  ultimately show ?case using s1 by simp
qed

lemma group_ok_create: "group_ok (create s)"
  by (simp add: group_ok_def)

lemma frameEnd_gone: "\<forall>x \<in> set (map ox (obstacles (frameEnd rand delta s))). \<not> x < - 60"
proof -
  obtain new where new:
      "map ox (obstacles (frameEnd rand delta s)) =
         map ox (filter (\<lambda>obj. \<not> ox obj < - 60) (obstacles s)) @ map ox new"
      "newborn (spawned s) (nat \<lfloor>toDouble (spawnAcc s + delta) / spawnDelay s\<rfloor>) new"
    using frameEnd_idents[of rand delta s] by blast
  have "\<forall>x \<in> set (map ox new). \<not> x < - 60"
    using new(2) by (simp add: newborn_def DESIGN_WIDTH_def)
  then show ?thesis unfolding new(1) by (simp add: ball_Un)
qed

subsection \<open>Game over\<close>

lemma moveTo_unplaced [simp]: "map unplaced (moveTo xs objs) = map unplaced objs"
  by (induction xs objs rule: moveTo.induct) (simp_all add: unplaced_def)

lemma moveTo_velocities:
  "obj \<in> set (moveTo xs objs) \<Longrightarrow> \<exists>old \<in> set objs. ovx obj = ovx old \<and> ovy obj = ovy old"
  by (induction xs objs rule: moveTo.induct) auto

lemma onGameOver_over: "gameOverShown s \<Longrightarrow> onGameOver s = s"
  by (simp add: onGameOver_def)

lemma tryJump_over: "gameOverShown s \<Longrightarrow> tryJump s = s"
  by (simp add: tryJump_def)

lemma onGameOver_first:
  "\<not> gameOverShown s \<Longrightarrow> overlays (onGameOver s) = Suc (overlays s)"
  "\<not> gameOverShown s \<Longrightarrow> obj \<in> set (obstacles (onGameOver s)) \<Longrightarrow> ovx obj = 0 \<and> ovy obj = 0"
  by (auto simp: onGameOver_def)

lemma frameEnd_over:
  assumes "\<not> gameOverShown s"
  shows "gameOverShown (frameEnd rand delta s) = (player_y s < - 40)"
    and "overlays (frameEnd rand delta s) = overlays s + (if player_y s < - 40 then 1 else 0)"
    and "player_y s < - 40 \<Longrightarrow>
           \<forall>obj \<in> set (obstacles (frameEnd rand delta s)). ovx obj = 0 \<and> ovy obj = 0"
proof -
  let ?s3 = "afterSpawn rand delta s"
  let ?s4 = "sweep (obstacles ?s3) (?s3\<lparr> obstacles := [] \<rparr>)"
  have no: "\<not> gameOverShown ?s4" using assms by simp
  have py: "player_y ?s4 = player_y s" by simp
  have fe: "frameEnd rand delta s = (if player_y s < - 40 then onGameOver ?s4 else ?s4)"
    by (simp add: frameEnd_def Let_def)
  show "gameOverShown (frameEnd rand delta s) = (player_y s < - 40)"
    unfolding fe using no by simp
  show "overlays (frameEnd rand delta s) = overlays s + (if player_y s < - 40 then 1 else 0)"
    unfolding fe using onGameOver_first(1)[OF no] by simp
  show "player_y s < - 40 \<Longrightarrow>
           \<forall>obj \<in> set (obstacles (frameEnd rand delta s)). ovx obj = 0 \<and> ovy obj = 0"
    unfolding fe using onGameOver_first(2)[OF no] by simp
qed

lemma over_ok_step:
  assumes r: "ramp_ok s" and o: "over_ok s" and st: "step rand e s = Some s'"
  shows "over_ok s'"
proof -
  have pos: "0 < spawnDelay s" using ramp_ok_bounds[OF r] by simp
  show ?thesis
  proof (cases e)
    case (Frame delta)
    show ?thesis
    proof (cases "gameOverShown s")
      case True
      then have "s' = s" using st Frame by (simp add: update_over)
      then show ?thesis using o by simp
    next
      case False
      then have s': "s' = frameEnd rand delta s" using st Frame pos by (simp add: update_play)
      have "overlays s = 0" using o False by (simp add: over_ok_def)
      then show ?thesis
        unfolding s' over_ok_def using frameEnd_over[OF False, of rand delta] by auto
    qed
  next
    case Jump
    then have s': "s' = tryJump s" using st by simp
    show ?thesis using o unfolding s' over_ok_def by simp
  next
    case Overlap
    then have s': "s' = onGameOver s" using st by simp
    show ?thesis
    proof (cases "gameOverShown s")
      case True
      then show ?thesis using o unfolding s' by (simp add: onGameOver_over)
    next
      case False
      then have "overlays s = 0" using o by (simp add: over_ok_def)
      then show ?thesis unfolding s' over_ok_def using onGameOver_first[OF False] by auto
    qed
  next
    case Restart
    then have s': "s' = (if gameOverShown s then create s else s)" using st by simp
    show ?thesis using o unfolding s' by (simp add: over_ok_def)
  next
    case (FetchDone x)
    then have s': "s' = fetchPriceOnce x s" using st by simp
    show ?thesis using o unfolding s' over_ok_def by simp
  next
    case (Physics b y xs)
    then have s': "s' = s\<lparr> player_body := b, player_y := y,
        obstacles := moveTo xs (obstacles s) \<rparr>" using st by simp
    show ?thesis using o moveTo_velocities[of _ xs "obstacles s"]
      unfolding s' over_ok_def by fastforce
  qed
qed

lemma over_ok_create: "over_ok (create s)"
  by (simp add: over_ok_def)

lemma over_step:
  assumes "gameOverShown s" and "e \<noteq> Restart"
  shows "\<exists>s'. step rand e s = Some s' \<and> gameOverShown s' \<and> overlays s' = overlays s \<and>
           score s' = score s \<and> scoreText s' = scoreText s \<and> speed s' = speed s \<and>
           spawnDelay s' = spawnDelay s \<and> spawnAcc s' = spawnAcc s \<and>
           priceAcc s' = priceAcc s \<and> fetchCalls s' = fetchCalls s \<and>
           spawned s' = spawned s \<and>
           map unplaced (obstacles s') = map unplaced (obstacles s)"
  using assms by (cases e) (simp_all add: update_over tryJump_over onGameOver_over)

lemma over_run:
  "gameOverShown s \<Longrightarrow> Restart \<notin> set es \<Longrightarrow>
   \<exists>s'. run rand es s = Some s' \<and> gameOverShown s' \<and> overlays s' = overlays s \<and>
           score s' = score s \<and> scoreText s' = scoreText s \<and> speed s' = speed s \<and>
           spawnDelay s' = spawnDelay s \<and> spawnAcc s' = spawnAcc s \<and>
           priceAcc s' = priceAcc s \<and> fetchCalls s' = fetchCalls s \<and>
           spawned s' = spawned s \<and>
           map unplaced (obstacles s') = map unplaced (obstacles s)"
proof (induction es arbitrary: s)
  case Nil
  then show ?case by simp
next
  case (Cons e es)
  have e: "e \<noteq> Restart" and es: "Restart \<notin> set es" using Cons.prems(2) by auto
  obtain s1 where s1: "step rand e s = Some s1" "gameOverShown s1" "overlays s1 = overlays s"
      "score s1 = score s" "scoreText s1 = scoreText s" "speed s1 = speed s"
      "spawnDelay s1 = spawnDelay s" "spawnAcc s1 = spawnAcc s"
      "priceAcc s1 = priceAcc s" "fetchCalls s1 = fetchCalls s" "spawned s1 = spawned s"
      "map unplaced (obstacles s1) = map unplaced (obstacles s)"
    using over_step[OF Cons.prems(1) e, of rand] by blast
  show ?case
    using Cons.IH[OF s1(2) es] s1 by simp
qed

section \<open>The claims\<close>

subsection \<open>C1: scoring of obstacles\<close>

text \<open>
  C1, as stated, fails: the score counts candles, not pairs. One call of \<^verbatim>\<open>spawnObstacle\<close>
  adds two objects to the group, and \<^verbatim>\<open>update\<close> adds one point for each object it finds
  left of - 60. After a single spawn whose two candles have passed the threshold the
  score is 2, both increments coming from pair 0.
\<close>

theorem pair_scores_twice:
  "map_option spawned
     (run sampleDraws [Frame 1200, Physics restingBody 364 [- 61, - 61], Frame 16]
        (create fresh)) = Some 1 \<and>
   map_option score
     (run sampleDraws [Frame 1200, Physics restingBody 364 [- 61, - 61], Frame 16]
        (create fresh)) = Some 2 \<and>
   scored_log sampleDraws [Frame 1200, Physics restingBody 364 [- 61, - 61], Frame 16]
     (create fresh) = [(0, True), (0, False)]"
  by (simp add: eval_defs ident_def counts_def)

text \<open>
  C1, amended: a frame in play adds one point for every candle of the group that is left
  of - 60 (and not flagged as scored) and destroys it, so no candle left of - 60 remains
  in the group; along a session from \<^verbatim>\<open>create\<close> the score is the number of entries of the
  log of scored candles, and no candle appears in the log twice. A pair contributes one
  increment for each of its two candles.
\<close>

theorem scoring_once_per_candle:
  "(\<not> gameOverShown s \<and> 0 < spawnDelay s \<longrightarrow>
      (\<exists>s'. update rand delta s = Some s' \<and>
         score s' = score s + length (filter counts (obstacles s)) \<and>
         (\<forall>x \<in> set (map ox (obstacles s')). \<not> x < - 60))) \<and>
   (Restart \<notin> set es \<longrightarrow>
      (\<exists>s'. run rand es (create s0) = Some s' \<and>
         score s' = length (scored_log rand es (create s0))) \<and>
      distinct (scored_log rand es (create s0)))"
proof -
  have frame: "\<not> gameOverShown s \<and> 0 < spawnDelay s \<longrightarrow>
      (\<exists>s'. update rand delta s = Some s' \<and>
         score s' = score s + length (filter counts (obstacles s)) \<and>
         (\<forall>x \<in> set (map ox (obstacles s')). \<not> x < - 60))"
    using frameEnd_gone[of rand delta s] by (simp add: update_play frameEnd_score)
  have session: "Restart \<notin> set es \<longrightarrow>
      (\<exists>s'. run rand es (create s0) = Some s' \<and>
         score s' = length (scored_log rand es (create s0))) \<and>
      distinct (scored_log rand es (create s0))"
  proof
    assume es: "Restart \<notin> set es"
    obtain s' where s': "run rand es (create s0) = Some s'"
      using run_total[OF ramp_ok_create, of rand es s0] by blast
    have "score s' = length (scored_log rand es (create s0))"
      using run_score_log[OF ramp_ok_create es s'] by simp
    moreover have "distinct (scored_log rand es (create s0))"
      using scored_log_distinct[of "create s0" rand es, OF ramp_ok_create group_ok_create]
        by simp
    ultimately show "(\<exists>s'. run rand es (create s0) = Some s' \<and>
         score s' = length (scored_log rand es (create s0))) \<and>
      distinct (scored_log rand es (create s0))"
      using s' by simp
  qed
  show ?thesis using frame session by simp
qed

text \<open>
  Witness for C1 amended: two pairs spawned in one frame pass the threshold one after the
  other; the score is 4 and the log holds each of the four candles once.
\<close>

theorem scoring_once_per_candle_witness:
  "\<not> gameOverShown (create fresh) \<and> 0 < spawnDelay (create fresh) \<and>
   Restart \<notin> set [Frame 2400, Physics restingBody 364 [- 61, - 61, 100, 100], Frame 16,
      Physics restingBody 364 [- 61, - 61], Frame 16] \<and>
   map_option score
     (run sampleDraws [Frame 2400, Physics restingBody 364 [- 61, - 61, 100, 100], Frame 16,
        Physics restingBody 364 [- 61, - 61], Frame 16] (create fresh)) = Some 4 \<and>
   scored_log sampleDraws [Frame 2400, Physics restingBody 364 [- 61, - 61, 100, 100], Frame 16,
     Physics restingBody 364 [- 61, - 61], Frame 16] (create fresh) =
     [(0, True), (0, False), (1, True), (1, False)]"
  using scoring_once_per_candle[where s = "create fresh" and rand = sampleDraws and delta = 16
      and es = "[Frame 2400, Physics restingBody 364 [- 61, - 61, 100, 100], Frame 16,
        Physics restingBody 364 [- 61, - 61], Frame 16]" and ?s0.0 = fresh]
  by (simp add: eval_defs ident_def counts_def)

subsection \<open>C2: a failed price fetch\<close>

text \<open>
  C2, as stated, fails: a response that is not OK and carries no numeric price field
  (\<^verbatim>\<open>parseFloat\<close> gives \<open>NaN\<close>) does not set the price label to the error string. After
  \<^verbatim>\<open>create\<close> the label still shows the placeholder.
\<close>

theorem fetch_nan_no_error_text:
  "priceText (fetchPriceOnce (Json False None) (create fresh)) \<noteq> FetchErrorText"
  by (simp add: fetchPriceOnce_def create_def Let_def)

text \<open>
  C2, amended: when the request or the decoding throws (the fetch rejects, the body is
  not JSON, the body is \<^verbatim>\<open>null\<close>), last price, current price and trend are unchanged and
  the label is the error string; when the price field does not parse as a number, nothing
  changes at all, the label included. The OK status of the response plays no part: the
  outcome for a body is the same whatever the status.
\<close>

theorem fetch_failure_amended:
  "(r = FetchRejected \<or> r = JsonRejected ok \<or> r = JsonNull ok \<longrightarrow>
      lastPrice (fetchPriceOnce r s) = lastPrice s \<and>
      curPrice (fetchPriceOnce r s) = curPrice s \<and>
      priceTrend (fetchPriceOnce r s) = priceTrend s \<and>
      priceText (fetchPriceOnce r s) = FetchErrorText) \<and>
   fetchPriceOnce (Json ok None) s = s \<and>
   fetchPriceOnce (Json ok p) s = fetchPriceOnce (Json ok' p) s"
  by (auto simp: fetchPriceOnce_def split: option.splits)

text \<open>Witness for C2 amended: the three throwing outcomes and the \<open>NaN\<close> outcome after
  \<^verbatim>\<open>create\<close>, and a response that is not OK whose price parses.\<close>

theorem fetch_failure_amended_witness:
  "priceText (fetchPriceOnce FetchRejected (create fresh)) = FetchErrorText \<and>
   priceText (fetchPriceOnce (JsonRejected False) (create fresh)) = FetchErrorText \<and>
   priceText (fetchPriceOnce (JsonNull True) (create fresh)) = FetchErrorText \<and>
   curPrice (fetchPriceOnce FetchRejected (create fresh)) = None \<and>
   fetchPriceOnce (Json False None) (create fresh) = create fresh \<and>
   curPrice (fetchPriceOnce (Json False (Some 1)) (create fresh)) = Some 1"
  using fetch_failure_amended[of FetchRejected False "create fresh" None True]
    fetch_failure_amended[of "JsonRejected False" False "create fresh" None True]
    fetch_failure_amended[of "JsonNull True" True "create fresh" "Some 1" False]
  by (simp add: create_def fresh_def Let_def fetchPriceOnce_def)

subsection \<open>C3: trend classification\<close>

text \<open>
  C3: for every sequence of parsed prices handed to \<open>fetchPriceOnce\<close> from the start of
  the program, the last price, the current price and the trend after each sample are those
  of the specification: the trend is flat for the first sample and for a sample equal to
  the one before, up for a greater one, down for a smaller one, and the last price is the
  sample before.
\<close>

theorem trend_sequence:
  "price_trace ok ps (create fresh) = spec_trace None ps"
  using price_trace_spec[of "create fresh" ok ps] by (simp add: create_def fresh_def Let_def)

text \<open>Witness for C3: four samples showing the four cases.\<close>

theorem trend_sequence_witness:
  "price_trace True [60000, 60500, 60500, 59000] (create fresh) =
     [(None, Some 60000, Flat), (Some 60000, Some 60500, Up),
      (Some 60500, Some 60500, Flat), (Some 60500, Some 59000, Down)]"
  using trend_sequence[of True "[60000, 60500, 60500, 59000]"] by simp

subsection \<open>C4: the difficulty ramp\<close>

text \<open>
  C4: a scoring event (\<open>scoreRamp\<close>) adds 8 to the speed, capped at 420, and takes 10
  from the spawn delay, floored at 885; a frame in play applies one scoring event per
  counted obstacle; within a session (no restart) the speed never decreases and stays at
  most 420, the spawn delay never increases and stays at least 885; after \<open>k\<close> scoring
  events from \<^verbatim>\<open>create\<close> the speed is \<open>min (180 + 8 k) 420\<close> and the spawn delay is
  \<open>max (1200 - 10 k) 885\<close>: 260 and 1100 after ten events, the cap reached exactly from 30
  events on, the floor exactly from 32 events on.
\<close>

theorem ramp_events:
  "speed (scoreRamp s) = min (speed s + 8) 420 \<and>
   spawnDelay (scoreRamp s) = max (spawnDelay s - 10) 885 \<and>
   (\<not> gameOverShown s \<and> 0 < spawnDelay s \<longrightarrow>
      (\<exists>s'. update rand delta s = Some s' \<and>
         speed s' = speed ((scoreRamp ^^ length (filter counts (obstacles s))) s) \<and>
         spawnDelay s' = spawnDelay ((scoreRamp ^^ length (filter counts (obstacles s))) s))) \<and>
   (run rand es0 (create fresh) = Some s1 \<and> Restart \<notin> set es \<and> run rand es s1 = Some s2 \<longrightarrow>
      speed s1 \<le> speed s2 \<and> speed s2 \<le> 420 \<and>
      spawnDelay s2 \<le> spawnDelay s1 \<and> 885 \<le> spawnDelay s2) \<and>
   speed ((scoreRamp ^^ k) (create s0)) = min (180 + 8 * real k) 420 \<and>
   spawnDelay ((scoreRamp ^^ k) (create s0)) = max (1200 - 10 * real k) 885 \<and>
   speed ((scoreRamp ^^ 10) (create s0)) = 260 \<and>
   spawnDelay ((scoreRamp ^^ 10) (create s0)) = 1100 \<and>
   (speed ((scoreRamp ^^ k) (create s0)) = 420 \<longleftrightarrow> 30 \<le> k) \<and>
   (spawnDelay ((scoreRamp ^^ k) (create s0)) = 885 \<longleftrightarrow> 32 \<le> k)"
proof -
  have mono: "run rand es0 (create fresh) = Some s1 \<and> Restart \<notin> set es \<and>
      run rand es s1 = Some s2 \<longrightarrow>
      speed s1 \<le> speed s2 \<and> speed s2 \<le> 420 \<and>
      spawnDelay s2 \<le> spawnDelay s1 \<and> 885 \<le> spawnDelay s2"
  proof
    assume a: "run rand es0 (create fresh) = Some s1 \<and> Restart \<notin> set es \<and>
      run rand es s1 = Some s2"
    have r1: "ramp_ok s1" using run_total[OF ramp_ok_create, of rand es0 fresh] a by simp
    have r2: "ramp_ok s2" using run_total[OF r1, of rand es] a by simp
    show "speed s1 \<le> speed s2 \<and> speed s2 \<le> 420 \<and>
      spawnDelay s2 \<le> spawnDelay s1 \<and> 885 \<le> spawnDelay s2"
      using session_mono[of rand es0 s1 es s2] a ramp_ok_bounds[OF r2] by simp
  qed
  have frame: "\<not> gameOverShown s \<and> 0 < spawnDelay s \<longrightarrow>
      (\<exists>s'. update rand delta s = Some s' \<and>
         speed s' = speed ((scoreRamp ^^ length (filter counts (obstacles s))) s) \<and>
         spawnDelay s' = spawnDelay ((scoreRamp ^^ length (filter counts (obstacles s))) s))"
    by (simp add: update_play frameEnd_as_events)
  have sp: "speed ((scoreRamp ^^ k) (create s0)) = min (180 + 8 * real k) 420"
    by (simp add: funpow_scoreRamp_speed)
  have sd: "spawnDelay ((scoreRamp ^^ k) (create s0)) = max (1200 - 10 * real k) 885"
    by (simp add: funpow_scoreRamp_spawnDelay)
  have ten: "speed ((scoreRamp ^^ 10) (create s0)) = 260"
      "spawnDelay ((scoreRamp ^^ 10) (create s0)) = 1100"
    by (simp_all add: funpow_scoreRamp_speed funpow_scoreRamp_spawnDelay)
  have cap: "speed ((scoreRamp ^^ k) (create s0)) = 420 \<longleftrightarrow> 30 \<le> k"
    unfolding sp by (auto simp: min_def)
  have floor: "spawnDelay ((scoreRamp ^^ k) (create s0)) = 885 \<longleftrightarrow> 32 \<le> k"
    unfolding sd by (auto simp: max_def)
  show ?thesis using mono frame sp sd ten cap floor by simp
qed

text \<open>
  Witness for C4: a session from \<^verbatim>\<open>create\<close> with two scoring events (speed 180 to 196,
  spawn delay 1200 to 1180), and the events 29 to 32 around the cap and the floor.
\<close>

theorem ramp_events_witness:
  "\<not> gameOverShown (create fresh) \<and> 0 < spawnDelay (create fresh) \<and>
   run sampleDraws [] (create fresh) = Some (create fresh) \<and>
   Restart \<notin> set [Frame 1200, Physics restingBody 364 [- 61, - 61], Frame 16] \<and>
   map_option speed
     (run sampleDraws [Frame 1200, Physics restingBody 364 [- 61, - 61], Frame 16]
        (create fresh)) = Some 196 \<and>
   map_option spawnDelay
     (run sampleDraws [Frame 1200, Physics restingBody 364 [- 61, - 61], Frame 16]
        (create fresh)) = Some 1180 \<and>
   speed (create fresh) = 180 \<and> spawnDelay (create fresh) = 1200 \<and>
   speed ((scoreRamp ^^ 29) (create fresh)) = 412 \<and>
   speed ((scoreRamp ^^ 30) (create fresh)) = 420 \<and>
   spawnDelay ((scoreRamp ^^ 31) (create fresh)) = 890 \<and>
   spawnDelay ((scoreRamp ^^ 32) (create fresh)) = 885"
  using ramp_events[of "create fresh" sampleDraws 16 "[]" "create fresh"
      "[Frame 1200, Physics restingBody 364 [- 61, - 61], Frame 16]"
      "the (run sampleDraws [Frame 1200, Physics restingBody 364 [- 61, - 61], Frame 16]
        (create fresh))" 29 fresh]
    ramp_events[of "create fresh" sampleDraws 16 "[]" "create fresh" "[]" "create fresh" 30 fresh]
    ramp_events[of "create fresh" sampleDraws 16 "[]" "create fresh" "[]" "create fresh" 31 fresh]
    ramp_events[of "create fresh" sampleDraws 16 "[]" "create fresh" "[]" "create fresh" 32 fresh]
  by (simp add: eval_defs)

subsection \<open>C5: the jump\<close>

text \<open>
  C5: when the game is not over and the player's body reports ground contact
  (\<^verbatim>\<open>blocked.down\<close> or \<^verbatim>\<open>touching.down\<close>), \<open>tryJump\<close> sets the vertical velocity to - 630 and
  changes nothing else; otherwise it changes nothing.
\<close>

theorem tryJump_contract:
  "(\<not> gameOverShown s \<and> (blocked_down (player_body s) \<or> touching_down (player_body s)) \<longrightarrow>
      tryJump s = s\<lparr> player_body := (player_body s)\<lparr> velocity_y := - 630 \<rparr> \<rparr> \<and>
      velocity_y (player_body (tryJump s)) = - 630) \<and>
   (gameOverShown s \<or> \<not> (blocked_down (player_body s) \<or> touching_down (player_body s)) \<longrightarrow>
      tryJump s = s)"
  by (simp add: tryJump_def jumpVelocity_def Let_def)

text \<open>Witness for C5: a player on the ground jumps; a player in the air and a player after
  game over do not.\<close>

theorem tryJump_contract_witness:
  "velocity_y (player_body (tryJump ((create fresh)\<lparr> player_body :=
       (player_body (create fresh))\<lparr> blocked_down := True \<rparr> \<rparr>))) = - 630 \<and>
   tryJump (create fresh) = create fresh \<and>
   tryJump (onGameOver ((create fresh)\<lparr> player_body :=
       (player_body (create fresh))\<lparr> blocked_down := True \<rparr> \<rparr>)) =
     onGameOver ((create fresh)\<lparr> player_body :=
       (player_body (create fresh))\<lparr> blocked_down := True \<rparr> \<rparr>)"
  using tryJump_contract[of "(create fresh)\<lparr> player_body :=
       (player_body (create fresh))\<lparr> blocked_down := True \<rparr> \<rparr>"]
    tryJump_contract[of "create fresh"]
    tryJump_contract[of "onGameOver ((create fresh)\<lparr> player_body :=
       (player_body (create fresh))\<lparr> blocked_down := True \<rparr> \<rparr>)"]
  by (simp add: create_def fresh_def Let_def onGameOver_def)

subsection \<open>C6: the game-over latch\<close>

text \<open>
  C6: when the game-over flag is set, a frame, a jump and a second \<^verbatim>\<open>onGameOver\<close> leave the
  scene as it is; along every sequence of events without a restart the flag stays set and
  the overlay count, the score, the speed, the spawn delay, both accumulators, the counts
  of requests and of spawns, and the obstacles (all but the abscissa, which the engine
  owns) stay as they are; and in every scene reached from the first \<^verbatim>\<open>create\<close> there is
  exactly one overlay when the game is over and none otherwise, and when the game is over
  every obstacle has velocity zero.
\<close>

theorem game_over_latched:
  "(gameOverShown s \<longrightarrow>
      update rand delta s = Some s \<and> tryJump s = s \<and> onGameOver s = s) \<and>
   (gameOverShown s \<and> Restart \<notin> set es \<longrightarrow>
      (\<exists>s'. run rand es s = Some s' \<and> gameOverShown s' \<and> overlays s' = overlays s \<and>
         score s' = score s \<and> scoreText s' = scoreText s \<and> speed s' = speed s \<and>
         spawnDelay s' = spawnDelay s \<and> spawnAcc s' = spawnAcc s \<and>
         priceAcc s' = priceAcc s \<and> fetchCalls s' = fetchCalls s \<and>
         spawned s' = spawned s \<and>
         map unplaced (obstacles s') = map unplaced (obstacles s))) \<and>
   (run rand es0 (create fresh) = Some s1 \<longrightarrow>
      overlays s1 = (if gameOverShown s1 then 1 else 0) \<and>
      (gameOverShown s1 \<longrightarrow> (\<forall>obj \<in> set (obstacles s1). ovx obj = 0 \<and> ovy obj = 0)))"
proof -
  have a: "gameOverShown s \<longrightarrow>
      update rand delta s = Some s \<and> tryJump s = s \<and> onGameOver s = s"
    by (simp add: update_over tryJump_over onGameOver_over)
  have b: "gameOverShown s \<and> Restart \<notin> set es \<longrightarrow>
      (\<exists>s'. run rand es s = Some s' \<and> gameOverShown s' \<and> overlays s' = overlays s \<and>
         score s' = score s \<and> scoreText s' = scoreText s \<and> speed s' = speed s \<and>
         spawnDelay s' = spawnDelay s \<and> spawnAcc s' = spawnAcc s \<and>
         priceAcc s' = priceAcc s \<and> fetchCalls s' = fetchCalls s \<and>
         spawned s' = spawned s \<and>
         map unplaced (obstacles s') = map unplaced (obstacles s))"
    using over_run[of s es rand] by blast
  have c: "run rand es0 (create fresh) = Some s1 \<longrightarrow>
      overlays s1 = (if gameOverShown s1 then 1 else 0) \<and>
      (gameOverShown s1 \<longrightarrow> (\<forall>obj \<in> set (obstacles s1). ovx obj = 0 \<and> ovy obj = 0))"
  proof
    assume run1: "run rand es0 (create fresh) = Some s1"
    have "over_ok s1"
      by (rule run_invariant[where I = over_ok, OF over_ok_step over_ok_create ramp_ok_create run1])
    then show "overlays s1 = (if gameOverShown s1 then 1 else 0) \<and>
      (gameOverShown s1 \<longrightarrow> (\<forall>obj \<in> set (obstacles s1). ovx obj = 0 \<and> ovy obj = 0))"
      by (simp add: over_ok_def)
  qed
  show ?thesis using a b c by blast
qed

text \<open>
  Witness for C6: a spawn, then an overlap; later frames, jumps, overlaps, a physics step
  and a failed fetch leave one overlay, the score 0 and the obstacles at rest.
\<close>

theorem game_over_latched_witness:
  "map_option (\<lambda>s. (gameOverShown s, overlays s, map ovx (obstacles s), map ovy (obstacles s)))
     (run sampleDraws [Frame 1200, Overlap] (create fresh)) = Some (True, 1, [0, 0], [0, 0]) \<and>
   Restart \<notin> set [Frame 16, Jump, Overlap, Physics restingBody 364 [100, 100], Jump,
      FetchDone FetchRejected, Frame 16] \<and>
   map_option (\<lambda>s. (gameOverShown s, overlays s, score s, map ovx (obstacles s),
                     velocity_y (player_body s)))
     (run sampleDraws [Frame 1200, Overlap, Frame 16, Jump, Overlap,
        Physics restingBody 364 [100, 100], Jump, FetchDone FetchRejected, Frame 16]
        (create fresh)) = Some (True, 1, 0, [0, 0], 0)"
  using game_over_latched[where s = "the (run sampleDraws [Frame 1200, Overlap] (create fresh))"
      and rand = sampleDraws and delta = 16
      and es = "[Frame 16, Jump, Overlap, Physics restingBody 364 [100, 100], Jump,
        FetchDone FetchRejected, Frame 16]"
      and ?es0.0 = "[Frame 1200, Overlap]"
      and ?s1.0 = "the (run sampleDraws [Frame 1200, Overlap] (create fresh))"]
  by (simp add: eval_defs)

subsection \<open>C7: the spawn accumulator\<close>

text \<open>
  C7: in a frame in play \<open>update\<close> adds \<open>delta\<close> to the spawn accumulator; the stored sum is
  the double \<open>a = toDouble (spawnAcc + delta)\<close>. With a spawn delay \<open>d\<close> that is a positive
  integer, a sum that is not negative and \<open>a\<close> below \<open>2 ^ 53\<close>, \<open>update\<close> returns,
  \<open>spawnObstacle\<close> has run \<open>\<lfloor>a / d\<rfloor>\<close> times (two candles each), and the accumulator is left
  at \<open>a - \<lfloor>a / d\<rfloor> * d\<close>, the remainder of \<open>a\<close> modulo \<open>d\<close>, which lies in \<open>[0, d)\<close>: the delay
  is subtracted once per spawn, and each of these subtractions is exact on doubles. The
  conditions on the scene hold in every scene reached from \<^verbatim>\<open>create\<close> by events whose frame
  times are not negative, and the accumulator is below 1200 there.
\<close>

theorem spawn_accumulator:
  "(\<not> gameOverShown s \<and> 0 < spawnDelay s \<and> spawnDelay s \<in> \<int> \<and>
    0 \<le> spawnAcc s + delta \<and> toDouble (spawnAcc s + delta) < 2 ^ 53 \<longrightarrow>
      (\<exists>s'. update rand delta s = Some s' \<and>
         spawned s' = spawned s + nat \<lfloor>toDouble (spawnAcc s + delta) / spawnDelay s\<rfloor> \<and>
         length (obstacles s') =
           length (filter (\<lambda>obj. \<not> ox obj < - 60) (obstacles s)) +
           2 * nat \<lfloor>toDouble (spawnAcc s + delta) / spawnDelay s\<rfloor> \<and>
         spawnAcc s' =
           toDouble (spawnAcc s + delta) -
           real_of_int \<lfloor>toDouble (spawnAcc s + delta) / spawnDelay s\<rfloor> * spawnDelay s \<and>
         0 \<le> spawnAcc s' \<and> spawnAcc s' < spawnDelay s \<and>
         (\<forall>j < nat \<lfloor>toDouble (spawnAcc s + delta) / spawnDelay s\<rfloor>.
            toDouble (toDouble (spawnAcc s + delta) - real j * spawnDelay s - spawnDelay s) =
            toDouble (spawnAcc s + delta) - real j * spawnDelay s - spawnDelay s))) \<and>
   (run rand es (create s0) = Some s1 \<and> (\<forall>e \<in> set es. timed e) \<longrightarrow>
      0 < spawnDelay s1 \<and> spawnDelay s1 \<in> \<int> \<and> 0 \<le> spawnAcc s1 \<and> spawnAcc s1 < 1200)"
proof -
  let ?a = "toDouble (spawnAcc s + delta)"
  let ?d = "spawnDelay s"
  let ?n = "nat \<lfloor>?a / ?d\<rfloor>"
  have frame: "\<not> gameOverShown s \<and> 0 < ?d \<and> ?d \<in> \<int> \<and>
      0 \<le> spawnAcc s + delta \<and> ?a < 2 ^ 53 \<longrightarrow>
      (\<exists>s'. update rand delta s = Some s' \<and>
         spawned s' = spawned s + ?n \<and>
         length (obstacles s') =
           length (filter (\<lambda>obj. \<not> ox obj < - 60) (obstacles s)) + 2 * ?n \<and>
         spawnAcc s' = ?a - real_of_int \<lfloor>?a / ?d\<rfloor> * ?d \<and>
         0 \<le> spawnAcc s' \<and> spawnAcc s' < ?d \<and>
         (\<forall>j < ?n. toDouble (?a - real j * ?d - ?d) = ?a - real j * ?d - ?d))"
  proof
    assume h: "\<not> gameOverShown s \<and> 0 < ?d \<and> ?d \<in> \<int> \<and>
      0 \<le> spawnAcc s + delta \<and> ?a < 2 ^ 53"
    then have pos: "0 < ?d" and play: "\<not> gameOverShown s" and int: "?d \<in> \<int>"
      and small: "?a < 2 ^ 53" and sum: "0 \<le> spawnAcc s + delta"
      by simp_all
    have a0: "0 \<le> ?a" using sum by (rule toDouble_nonneg)
    have grid: "onGrid ?a" using sum by (rule onGrid_of_toDouble)
    have "0 \<le> ?a / ?d" using a0 pos by simp
    then have "0 \<le> \<lfloor>?a / ?d\<rfloor>" by simp
    then have n: "real ?n = real_of_int \<lfloor>?a / ?d\<rfloor>" by simp
    have exact: "\<forall>j < ?n. toDouble (?a - real j * ?d - ?d) = ?a - real j * ?d - ?d"
    proof (intro allI impI)
      fix j assume "j < ?n"
      then have "real (Suc j) \<le> real ?n" by simp
      also have "\<dots> \<le> ?a / ?d" unfolding n by simp
      finally have "real (Suc j) * ?d \<le> ?a" using pos by (simp add: pos_le_divide_eq)
      then show "toDouble (?a - real j * ?d - ?d) = ?a - real j * ?d - ?d"
        by (rule spawn_subtraction_exact[OF grid small int pos])
    qed
    show "\<exists>s'. update rand delta s = Some s' \<and>
         spawned s' = spawned s + ?n \<and>
         length (obstacles s') =
           length (filter (\<lambda>obj. \<not> ox obj < - 60) (obstacles s)) + 2 * ?n \<and>
         spawnAcc s' = ?a - real_of_int \<lfloor>?a / ?d\<rfloor> * ?d \<and>
         0 \<le> spawnAcc s' \<and> spawnAcc s' < ?d \<and>
         (\<forall>j < ?n. toDouble (?a - real j * ?d - ?d) = ?a - real j * ?d - ?d)"
      using floor_rest[OF pos, of ?a] exact
      by (simp add: update_play[OF play pos] frameEnd_length n)
  qed
  have reach: "run rand es (create s0) = Some s1 \<and> (\<forall>e \<in> set es. timed e) \<longrightarrow>
      0 < spawnDelay s1 \<and> spawnDelay s1 \<in> \<int> \<and> 0 \<le> spawnAcc s1 \<and> spawnAcc s1 < 1200"
    using reachable_spawnAcc[of rand es s0 s1] by blast
  show ?thesis using frame reach by blast
qed

text \<open>
  Witness for C7: a frame of 2500 ms right after \<^verbatim>\<open>create\<close> (spawn delay 1200) spawns two
  pairs and leaves 100 in the accumulator; after a frame of 700 ms it leaves 800. With
  1199.5 in the accumulator, a frame of \<open>1 / 2 - 1 / 2 ^ 54\<close> ms (the double just below one
  half) makes the sum round to 1200: one pair is spawned and 0 is left.
\<close>

theorem spawn_accumulator_witness:
  "\<not> gameOverShown (create fresh) \<and> 0 < spawnDelay (create fresh) \<and>
   spawnDelay (create fresh) \<in> \<int> \<and>
   0 \<le> spawnAcc (create fresh) + 2500 \<and>
   toDouble (spawnAcc (create fresh) + 2500) < 2 ^ 53 \<and>
   map_option (\<lambda>s. (spawned s, length (obstacles s), spawnAcc s))
     (update sampleDraws 2500 (create fresh)) = Some (2, 4, 100) \<and>
   timed (Frame 700) \<and> timed (Frame 2500) \<and>
   map_option (\<lambda>s. (spawned s, length (obstacles s), spawnAcc s, spawnDelay s))
     (run sampleDraws [Frame 700, Frame 2500] (create fresh)) = Some (2, 4, 800, 1200) \<and>
   toDouble (2399 / 2 + (1 / 2 - 1 / 2 ^ 54)) = 1200 \<and>
   map_option spawned
     (update sampleDraws (1 / 2 - 1 / 2 ^ 54) ((create fresh)\<lparr> spawnAcc := 2399 / 2 \<rparr>)) =
     Some 1 \<and>
   map_option spawnAcc
     (update sampleDraws (1 / 2 - 1 / 2 ^ 54) ((create fresh)\<lparr> spawnAcc := 2399 / 2 \<rparr>)) =
     Some 0"
proof -
  have r: "toDouble (2399 / 2 + (1 / 2 - 1 / 2 ^ 54)) = 1200"
    by (subst toDouble_normal[where e = 10]) (simp_all add: roundEven_def)
  have ints: "(1200::real) \<in> \<int>" by simp
  have whole: "\<not> gameOverShown (create fresh) \<and> 0 < spawnDelay (create fresh) \<and>
     spawnDelay (create fresh) \<in> \<int> \<and>
     0 \<le> spawnAcc (create fresh) + 2500 \<and>
     toDouble (spawnAcc (create fresh) + 2500) < 2 ^ 53 \<and>
     map_option (\<lambda>s. (spawned s, length (obstacles s), spawnAcc s))
       (update sampleDraws 2500 (create fresh)) = Some (2, 4, 100) \<and>
     timed (Frame 700) \<and> timed (Frame 2500) \<and>
     map_option (\<lambda>s. (spawned s, length (obstacles s), spawnAcc s, spawnDelay s))
       (run sampleDraws [Frame 700, Frame 2500] (create fresh)) = Some (2, 4, 800, 1200)"
    using spawn_accumulator[where s = "create fresh" and delta = 2500 and rand = sampleDraws
        and es = "[Frame 700, Frame 2500]" and ?s0.0 = fresh
        and ?s1.0 = "the (run sampleDraws [Frame 700, Frame 2500] (create fresh))"]
    by (simp add: eval_defs)
  let ?s = "(create fresh)\<lparr> spawnAcc := 2399 / 2 \<rparr>"
  have a: "toDouble (spawnAcc ?s + (1 / 2 - 1 / 2 ^ 54)) = 1200"
    using r by simp
  have hyp: "\<not> gameOverShown ?s \<and> 0 < spawnDelay ?s \<and> spawnDelay ?s \<in> \<int> \<and>
      0 \<le> spawnAcc ?s + (1 / 2 - 1 / 2 ^ 54) \<and>
      toDouble (spawnAcc ?s + (1 / 2 - 1 / 2 ^ 54)) < 2 ^ 53"
    unfolding a using ints by simp
  obtain s' where s': "update sampleDraws (1 / 2 - 1 / 2 ^ 54) ?s = Some s'"
      "spawned s' = spawned ?s + nat \<lfloor>toDouble (spawnAcc ?s + (1 / 2 - 1 / 2 ^ 54)) / spawnDelay ?s\<rfloor>"
      "spawnAcc s' = toDouble (spawnAcc ?s + (1 / 2 - 1 / 2 ^ 54)) -
         real_of_int \<lfloor>toDouble (spawnAcc ?s + (1 / 2 - 1 / 2 ^ 54)) / spawnDelay ?s\<rfloor> *
         spawnDelay ?s"
    using spawn_accumulator[where s = ?s and delta = "1 / 2 - 1 / 2 ^ 54"
        and rand = sampleDraws and es = "[]" and ?s0.0 = fresh and ?s1.0 = "create fresh"] hyp
    by blast
  have "spawned s' = 1" "spawnAcc s' = 0"
    using s'(2,3) unfolding a by simp_all
  then have round: "map_option spawned (update sampleDraws (1 / 2 - 1 / 2 ^ 54) ?s) = Some 1 \<and>
      map_option spawnAcc (update sampleDraws (1 / 2 - 1 / 2 ^ 54) ?s) = Some 0"
    using s'(1) by simp
  show ?thesis using whole r round by simp
qed

subsection \<open>C8: the ground clamp\<close>

text \<open>
  C8 fails on the code: the clamp puts the body back on the ground plane, but it sets the
  vertical velocity to \<^verbatim>\<open>Math.max(0, velocity.y)\<close>, and positive is downward. A body that is
  6 below the ground and falls at 200 is moved up to the ground (top at 346) and still
  falls at 200 after the frame.
\<close>

theorem clamp_keeps_downward_velocity:
  "map_option (body_y \<circ> player_body)
     (run sampleDraws
        [Physics \<lparr> body_y = 352, body_height = 36, velocity_y = 200,
                   blocked_down = False, touching_down = False \<rparr> 370 [],
         Frame 16] (create fresh)) = Some 346 \<and>
   map_option (velocity_y \<circ> player_body)
     (run sampleDraws
        [Physics \<lparr> body_y = 352, body_height = 36, velocity_y = 200,
                   blocked_down = False, touching_down = False \<rparr> 370 [],
         Frame 16] (create fresh)) = Some 200"
  by (simp add: eval_defs)

subsection \<open>C9: difficulty as a function of the score\<close>

text \<open>
  C9: \<^verbatim>\<open>create\<close> establishes \<open>ramp_ok\<close> with score 0, a scoring event preserves it, and
  every sequence of events from the first \<^verbatim>\<open>create\<close> ends in a scene whose speed is
  \<open>min (180 + 8 * score) 420\<close> and whose spawn delay is \<open>max (1200 - 10 * score) 885\<close>.
\<close>

theorem difficulty_of_score:
  "ramp_ok (create s0) \<and> score (create s0) = 0 \<and>
   (ramp_ok s \<longrightarrow> ramp_ok (scoreRamp s) \<and> score (scoreRamp s) = score s + 1) \<and>
   (\<exists>s'. run rand es (create fresh) = Some s' \<and>
      speed s' = min (180 + 8 * real (score s')) 420 \<and>
      spawnDelay s' = max (1200 - 10 * real (score s')) 885)"
  using run_total[OF ramp_ok_create, of rand es fresh]
  by (auto simp: ramp_ok_create ramp_ok_scoreRamp ramp_ok_def)

text \<open>
  Witness for C9: a run with one scoring event, and the same run followed by game over
  and a restart.
\<close>

theorem difficulty_of_score_witness:
  "map_option (\<lambda>s. (score s, speed s, spawnDelay s))
     (run sampleDraws [Frame 1200, Physics restingBody 364 [- 61, 100], Frame 16,
        Overlap, Restart, Frame 16] (create fresh)) = Some (0, 180, 1200) \<and>
   map_option (\<lambda>s. (score s, speed s, spawnDelay s))
     (run sampleDraws [Frame 1200, Physics restingBody 364 [- 61, 100], Frame 16]
        (create fresh)) = Some (1, 188, 1190) \<and>
   ramp_ok (create fresh) \<and> ramp_ok (scoreRamp (create fresh))"
  using difficulty_of_score[of fresh "create fresh" sampleDraws
      "[Frame 1200, Physics restingBody 364 [- 61, 100], Frame 16]"]
  by (simp add: eval_defs ramp_ok_def)

subsection \<open>C10: the price fields\<close>

text \<open>
  C10: in every scene reached from the first \<^verbatim>\<open>create\<close>, a last price comes with a
  current price, and a trend up or down comes with both and with at least two parsed
  samples among the events.
\<close>

theorem price_invariant:
  assumes "run rand es (create fresh) = Some s"
  shows "(lastPrice s \<noteq> None \<longrightarrow> curPrice s \<noteq> None) \<and>
         (priceTrend s = Up \<or> priceTrend s = Down \<longrightarrow>
            lastPrice s \<noteq> None \<and> curPrice s \<noteq> None \<and> 2 \<le> parses es)"
proof -
  have "price_ok s \<and> (curPrice s \<noteq> None \<longrightarrow> 1 \<le> 0 + parses es) \<and>
        (lastPrice s \<noteq> None \<longrightarrow> 2 \<le> 0 + parses es)"
    by (rule run_prices[OF assms ramp_ok_create]) (simp_all add: price_ok_def)
  then show ?thesis by (auto simp: price_ok_def)
qed

text \<open>
  Witness for C10: two parsed samples, 60000 then 60500, leave the trend up.
\<close>

theorem price_invariant_witness:
  "run sampleDraws [Frame 16, FetchDone (Json True (Some 60000)), Frame 5000,
       FetchDone (Json True (Some 60500))] (create fresh) =
     Some (the (run sampleDraws [Frame 16, FetchDone (Json True (Some 60000)), Frame 5000,
       FetchDone (Json True (Some 60500))] (create fresh))) \<and>
   map_option (\<lambda>s. (lastPrice s, curPrice s, priceTrend s))
     (run sampleDraws [Frame 16, FetchDone (Json True (Some 60000)), Frame 5000,
       FetchDone (Json True (Some 60500))] (create fresh)) =
     Some (Some 60000, Some 60500, Up) \<and>
   parses [Frame 16, FetchDone (Json True (Some 60000)), Frame 5000,
       FetchDone (Json True (Some 60500))] = 2"
  using price_invariant[of sampleDraws
      "[Frame 16, FetchDone (Json True (Some 60000)), Frame 5000,
        FetchDone (Json True (Some 60500))]"
      "the (run sampleDraws [Frame 16, FetchDone (Json True (Some 60000)), Frame 5000,
        FetchDone (Json True (Some 60500))] (create fresh))"]
  by (simp add: eval_defs parses_def)

end
